theory Spec2Isabelle
  imports Main "HOL-Library.Sublist" "HOL-Library.AList"
begin

section \<open>Strings and paths\<close>

text \<open>
  A file's content is a sequence of bytes, written as a \<^typ>\<open>string\<close> (a \<^typ>\<open>char\<close> is one
  byte). POSIX file names are byte strings too, so a path relative to a directory is the
  list of its parts. Decoded text (a Python \<open>str\<close>) is a list of Unicode code points.
\<close>

type_synonym bytes = string
type_synonym pystr = "nat list"
type_synonym path = "string list"

definition str :: "string \<Rightarrow> pystr" where
  "str s = map of_char s"

definition startswith :: "'a list \<Rightarrow> 'a list \<Rightarrow> bool" where
  "startswith s p = prefix p s"

definition endswith :: "'a list \<Rightarrow> 'a list \<Rightarrow> bool" where
  "endswith s p = suffix p s"

text \<open>\<open>pattern.rstrip("/")\<close>: every trailing separator is removed.\<close>

definition rstrip_slash :: "string \<Rightarrow> string" where
  "rstrip_slash s = rev (dropWhile (\<lambda>c. c = CHR ''/'') (rev s))"

text \<open>
  \<open>str(relative)\<close> of a \<open>pathlib\<close> path: the parts joined by the separator; the empty
  relative path prints as a dot. \<open>relative.name\<close> is the last part, empty for the empty path.
\<close>

fun str_of :: "path \<Rightarrow> string" where
  "str_of [] = ''.''"
| "str_of [a] = a"
| "str_of (a # b # r) = a @ ''/'' @ str_of (b # r)"

definition name :: "path \<Rightarrow> string" where
  "name p = (if p = [] then [] else last p)"

text \<open>
  \<open>claude_dir / pattern\<close>: the parts of a relative pattern. Repeated and trailing separators
  and dot parts vanish, as in \<open>pathlib\<close>. Patterns are relative and stay below the directory,
  as every declared rule does.
\<close>

fun split_slash :: "string \<Rightarrow> string \<Rightarrow> string list" where
  "split_slash cur [] = [cur]"
| "split_slash cur (c # cs) =
     (if c = CHR ''/'' then cur # split_slash [] cs else split_slash (cur @ [c]) cs)"

definition parts :: "string \<Rightarrow> path" where
  "parts s = filter (\<lambda>c. c \<noteq> [] \<and> c \<noteq> ''.'') (split_slash [] s)"

section \<open>Sync rules (models/sync\_rules.py)\<close>

datatype SyncTier = TIER1 | TIER2 | TIER3

fun tier_value :: "SyncTier \<Rightarrow> nat" where
  "tier_value TIER1 = 1"
| "tier_value TIER2 = 2"
| "tier_value TIER3 = 3"

record SyncRule =
  pattern :: string
  tier :: SyncTier
  is_directory :: bool
  description :: pystr

definition get_default_rules :: "SyncRule list" where
  "get_default_rules =
    [ \<lparr>pattern = ''CLAUDE.md'', tier = TIER1, is_directory = False,
       description = [0xBA54, 0xC778, 0x20, 0x43, 0x6C, 0x61, 0x75, 0x64, 0x65, 0x20, 0xC124,
                      0xC815, 0x20, 0xD30C, 0xC77C]\<rparr>,
      \<lparr>pattern = ''settings.json'', tier = TIER1, is_directory = False,
       description = [0x43, 0x6C, 0x61, 0x75, 0x64, 0x65, 0x20, 0x43, 0x6F, 0x64, 0x65, 0x20,
                      0xC124, 0xC815]\<rparr>,
      \<lparr>pattern = ''agents/'', tier = TIER1, is_directory = True,
       description = [0xC0AC, 0xC6A9, 0xC790, 0x20, 0xC5D0, 0xC774, 0xC804, 0xD2B8, 0x20,
                      0xC815, 0xC758]\<rparr>,
      \<lparr>pattern = ''plugins/installed_plugins.json'', tier = TIER1, is_directory = False,
       description = [0xC124, 0xCE58, 0xB41C, 0x20, 0xD50C, 0xB7EC, 0xADF8, 0xC778, 0x20,
                      0xBAA9, 0xB85D]\<rparr>,
      \<lparr>pattern = ''skills/'', tier = TIER2, is_directory = True,
       description = [0xC0AC, 0xC6A9, 0xC790, 0x20, 0xC2A4, 0xD0AC, 0x20, 0xC815, 0xC758]\<rparr>,
      \<lparr>pattern = ''history.jsonl'', tier = TIER2, is_directory = False,
       description = [0xBA85, 0xB839, 0x20, 0xD788, 0xC2A4, 0xD1A0, 0xB9AC]\<rparr>,
      \<lparr>pattern = ''projects/'', tier = TIER3, is_directory = True,
       description = [0xD504, 0xB85C, 0xC81D, 0xD2B8, 0xBCC4, 0x20, 0xC138, 0xC158, 0x20,
                      0xD788, 0xC2A4, 0xD1A0, 0xB9AC]\<rparr>,
      \<lparr>pattern = ''todos/'', tier = TIER3, is_directory = True,
       description = [0xD560, 0xC77C, 0x20, 0xBAA9, 0xB85D]\<rparr> ]"

definition get_rules_by_tier :: "SyncTier \<Rightarrow> SyncRule list" where
  "get_rules_by_tier max_tier =
     filter (\<lambda>r. tier_value (tier r) \<le> tier_value max_tier) get_default_rules"

definition get_excluded_patterns :: "string list" where
  "get_excluded_patterns =
    [''debug/'', ''cache/'', ''paste-cache/'', ''session-env/'', ''statusline.log'',
     ''stats-cache.json'', ''statsig/'', ''settings.local.json'']"

section \<open>Directory trees and the path resolver (core/path\_resolver.py)\<close>

text \<open>
  A directory is modelled by the regular files below it: their paths relative to the
  directory, with their bytes, in the order in which \<open>rglob\<close> lists them. A directory exists
  where a file lies below it; empty directories, permissions, modification times and links
  are not modelled. The source, mirror and backup directories are taken to be disjoint.
\<close>

type_synonym tree = "(path \<times> bytes) list"

definition is_file :: "tree \<Rightarrow> path \<Rightarrow> bool" where
  "is_file t p = (map_of t p \<noteq> None)"

definition is_dir :: "tree \<Rightarrow> path \<Rightarrow> bool" where
  "is_dir t p = list_ex (\<lambda>(q, _). strict_prefix p q) t"

text \<open>\<open>[f for f in d.rglob("*") if f.is_file()]\<close>: the regular files strictly below \<open>d\<close>.\<close>

definition rglob_files :: "tree \<Rightarrow> path \<Rightarrow> (path \<times> bytes) list" where
  "rglob_files t d = filter (\<lambda>(q, _). strict_prefix d q) t"

fun list_syncable_files :: "tree \<Rightarrow> string list \<Rightarrow> (path \<times> bytes) list" where
  "list_syncable_files t [] = []"
| "list_syncable_files t (pat # patterns) =
     (let target = parts pat in
      (if endswith pat ''/'' then
         (let dir_path = parts (rstrip_slash pat) in
          if is_dir t dir_path then rglob_files t dir_path else [])
       else (case map_of t target of Some b \<Rightarrow> [(target, b)] | None \<Rightarrow> []))
      @ list_syncable_files t patterns)"

section \<open>Secret scanning (utils/security.py)\<close>

subsection \<open>Reading a file as text\<close>

text \<open>
  \<open>file_path.read_text(encoding="utf-8")\<close> decodes strictly (no overlong form, no surrogate,
  nothing above U+10FFFF) and translates every \<open>\r\n\<close> and \<open>\r\<close> to \<open>\n\<close>. A file that does not
  decode raises \<open>UnicodeDecodeError\<close>, here \<open>None\<close>.
\<close>

definition cont_byte :: "nat \<Rightarrow> bool" where
  "cont_byte b = (0x80 \<le> b \<and> b \<le> 0xBF)"

fun utf8_decode :: "nat list \<Rightarrow> pystr option" where
  "utf8_decode [] = Some []"
| "utf8_decode (b # bs) =
    (if b < 0x80 then map_option ((#) b) (utf8_decode bs)
     else if 0xC2 \<le> b \<and> b \<le> 0xDF then
       (case bs of
          b1 # r \<Rightarrow>
            if cont_byte b1
            then map_option ((#) ((b - 0xC0) * 0x40 + (b1 - 0x80))) (utf8_decode r)
            else None
        | _ \<Rightarrow> None)
     else if 0xE0 \<le> b \<and> b \<le> 0xEF then
       (case bs of
          b1 # b2 # r \<Rightarrow>
            if cont_byte b1 \<and> cont_byte b2
               \<and> (if b = 0xE0 then 0xA0 \<le> b1 else True)
               \<and> (if b = 0xED then b1 \<le> 0x9F else True)
            then map_option
                   ((#) ((b - 0xE0) * 0x1000 + (b1 - 0x80) * 0x40 + (b2 - 0x80)))
                   (utf8_decode r)
            else None
        | _ \<Rightarrow> None)
     else if 0xF0 \<le> b \<and> b \<le> 0xF4 then
       (case bs of
          b1 # b2 # b3 # r \<Rightarrow>
            if cont_byte b1 \<and> cont_byte b2 \<and> cont_byte b3
               \<and> (if b = 0xF0 then 0x90 \<le> b1 else True)
               \<and> (if b = 0xF4 then b1 \<le> 0x8F else True)
            then map_option
                   ((#) ((b - 0xF0) * 0x40000 + (b1 - 0x80) * 0x1000 + (b2 - 0x80) * 0x40
                         + (b3 - 0x80)))
                   (utf8_decode r)
            else None
        | _ \<Rightarrow> None)
     else None)"

fun universal_newlines :: "pystr \<Rightarrow> pystr" where
  "universal_newlines [] = []"
| "universal_newlines [c] = [if c = 0x0D then 0x0A else c]"
| "universal_newlines (c # d # cs) =
     (if c = 0x0D \<and> d = 0x0A then 0x0A # universal_newlines cs
      else if c = 0x0D then 0x0A # universal_newlines (d # cs)
      else c # universal_newlines (d # cs))"

definition read_text :: "bytes \<Rightarrow> pystr option" where
  "read_text b = map_option universal_newlines (utf8_decode (map of_char b))"

text \<open>\<open>content.splitlines()\<close>: the line boundaries of a Python \<open>str\<close>; no final empty line.\<close>

definition linebreak :: "nat \<Rightarrow> bool" where
  "linebreak c = (c = 0x0A \<or> c = 0x0B \<or> c = 0x0C \<or> c = 0x0D \<or> c = 0x1C \<or> c = 0x1D
                  \<or> c = 0x1E \<or> c = 0x85 \<or> c = 0x2028 \<or> c = 0x2029)"

fun splitlines_from :: "pystr \<Rightarrow> pystr \<Rightarrow> pystr list" where
  "splitlines_from cur [] = (if cur = [] then [] else [cur])"
| "splitlines_from cur [c] = (if linebreak c then [cur] else [cur @ [c]])"
| "splitlines_from cur (c # d # cs) =
     (if c = 0x0D \<and> d = 0x0A then cur # splitlines_from [] cs
      else if linebreak c then cur # splitlines_from [] (d # cs)
      else splitlines_from (cur @ [c]) (d # cs))"

definition splitlines :: "pystr \<Rightarrow> pystr list" where
  "splitlines s = splitlines_from [] s"

subsection \<open>The credential signatures\<close>

text \<open>
  The signatures use a small part of Python's \<open>re\<close>: a sequence of literals and of greedy
  repetitions \<open>{m}\<close>, \<open>{m,}\<close> of one character class. \<open>match_at\<close> is \<open>re\<close>'s backtracking
  matcher on that part: a repetition first takes as many characters as it may and gives them
  back one by one while the rest of the pattern fails. The result is the length of the match.
\<close>

datatype item = Lit pystr | Rep "nat \<Rightarrow> bool" nat "nat option"

fun try_len :: "(pystr \<Rightarrow> nat option) \<Rightarrow> pystr \<Rightarrow> nat \<Rightarrow> nat \<Rightarrow> nat option" where
  "try_len cont s lo k =
     (if k < lo then None
      else case cont (drop k s) of
             Some n \<Rightarrow> Some (k + n)
           | None \<Rightarrow> (case k of 0 \<Rightarrow> None | Suc j \<Rightarrow> try_len cont s lo j))"

declare try_len.simps [simp del]

primrec match_at :: "item list \<Rightarrow> pystr \<Rightarrow> nat option" where
  "match_at [] = (\<lambda>s. Some 0)"
| "match_at (i # r) = (\<lambda>s.
     case i of
       Lit l \<Rightarrow>
         (if prefix l s
          then map_option (\<lambda>n. length l + n) (match_at r (drop (length l) s))
          else None)
     | Rep cls lo hi \<Rightarrow>
         (let n = length (takeWhile cls s);
              m = (case hi of None \<Rightarrow> n | Some h \<Rightarrow> min n h)
          in try_len (match_at r) s lo m))"

text \<open>\<open>pattern.search(line)\<close> and \<open>match.group()\<close>: the text of the leftmost match.\<close>

fun search :: "item list \<Rightarrow> pystr \<Rightarrow> pystr option" where
  "search re [] = map_option (\<lambda>n. []) (match_at re [])"
| "search re (c # cs) =
     (case match_at re (c # cs) of
        Some n \<Rightarrow> Some (take n (c # cs))
      | None \<Rightarrow> search re cs)"

text \<open>
  The character classes. \<open>\w\<close> is Unicode-aware in a \<open>str\<close> pattern: below 128 it is
  \<open>[a-zA-Z0-9_]\<close>; above, it is what the Unicode database calls alphanumeric. That table is not
  part of the repository: it is the parameter \<open>isalnum\<close>.
\<close>

definition ascii_alnum :: "nat \<Rightarrow> bool" where
  "ascii_alnum c = ((0x30 \<le> c \<and> c \<le> 0x39) \<or> (0x41 \<le> c \<and> c \<le> 0x5A) \<or> (0x61 \<le> c \<and> c \<le> 0x7A))"

definition cls_w :: "(nat \<Rightarrow> bool) \<Rightarrow> nat \<Rightarrow> bool" where
  "cls_w isalnum c = (if c < 0x80 then ascii_alnum c \<or> c = 0x5F else isalnum c)"

definition cls_w_hyphen :: "(nat \<Rightarrow> bool) \<Rightarrow> nat \<Rightarrow> bool" where
  "cls_w_hyphen isalnum c = (cls_w isalnum c \<or> c = 0x2D)"

definition cls_alnum_underscore :: "nat \<Rightarrow> bool" where
  "cls_alnum_underscore c = (ascii_alnum c \<or> c = 0x5F)"

definition cls_alnum_underscore_hyphen :: "nat \<Rightarrow> bool" where
  "cls_alnum_underscore_hyphen c = (ascii_alnum c \<or> c = 0x5F \<or> c = 0x2D)"

text \<open>A compiled pattern: its source text (\<open>pattern.pattern\<close>) and its items.\<close>

record regex =
  source :: string
  items :: "item list"

definition backslash :: string where
  "backslash = [CHR 0x5C]"

definition SECRET_PATTERNS :: "(nat \<Rightarrow> bool) \<Rightarrow> regex list" where
  "SECRET_PATTERNS isalnum =
    [ \<lparr>source = ''sk-ant-api'' @ backslash @ ''w{2}-['' @ backslash @ ''w-]{20,}'',
       items = [Lit (str ''sk-ant-api''), Rep (cls_w isalnum) 2 (Some 2), Lit (str ''-''),
                Rep (cls_w_hyphen isalnum) 20 None]\<rparr>,
      \<lparr>source = ''sk-proj-['' @ backslash @ ''w-]{20,}'',
       items = [Lit (str ''sk-proj-''), Rep (cls_w_hyphen isalnum) 20 None]\<rparr>,
      \<lparr>source = ''sk-[a-zA-Z0-9]{20,}'',
       items = [Lit (str ''sk-''), Rep ascii_alnum 20 None]\<rparr>,
      \<lparr>source = ''ghp_[a-zA-Z0-9]{36,}'',
       items = [Lit (str ''ghp_''), Rep ascii_alnum 36 None]\<rparr>,
      \<lparr>source = ''gho_[a-zA-Z0-9]{36,}'',
       items = [Lit (str ''gho_''), Rep ascii_alnum 36 None]\<rparr>,
      \<lparr>source = ''github_pat_[a-zA-Z0-9_]{20,}'',
       items = [Lit (str ''github_pat_''), Rep cls_alnum_underscore 20 None]\<rparr>,
      \<lparr>source = ''xoxb-['' @ backslash @ ''w-]{20,}'',
       items = [Lit (str ''xoxb-''), Rep (cls_w_hyphen isalnum) 20 None]\<rparr>,
      \<lparr>source = ''xoxp-['' @ backslash @ ''w-]{20,}'',
       items = [Lit (str ''xoxp-''), Rep (cls_w_hyphen isalnum) 20 None]\<rparr>,
      \<lparr>source = ''AIza[a-zA-Z0-9_-]{35}'',
       items = [Lit (str ''AIza''), Rep cls_alnum_underscore_hyphen 35 (Some 35)]\<rparr> ]"

subsection \<open>The scan\<close>

record SecretFinding =
  file_path :: path
  line_number :: nat
  matched_text :: pystr
  pattern_name :: string

text \<open>\<open>for pattern in SECRET_PATTERNS\<close>: one \<open>search\<close> of the line for each signature.\<close>

fun scan_line :: "path \<Rightarrow> nat \<Rightarrow> pystr \<Rightarrow> regex list \<Rightarrow> SecretFinding list" where
  "scan_line fp n line [] = []"
| "scan_line fp n line (p # ps) =
     (case search (items p) line of
        Some m \<Rightarrow>
          \<lparr>file_path = fp, line_number = n, matched_text = m, pattern_name = source p\<rparr>
          # scan_line fp n line ps
      | None \<Rightarrow> scan_line fp n line ps)"

text \<open>\<open>for line_number, line in enumerate(content.splitlines(), start=1)\<close>.\<close>

fun scan_lines :: "(nat \<Rightarrow> bool) \<Rightarrow> path \<Rightarrow> nat \<Rightarrow> pystr list \<Rightarrow> SecretFinding list" where
  "scan_lines isalnum fp n [] = []"
| "scan_lines isalnum fp n (line # lines) =
     scan_line fp n line (SECRET_PATTERNS isalnum) @ scan_lines isalnum fp (Suc n) lines"

text \<open>\<open>for file_path in directory.rglob("*")\<close>, the files that do not decode skipped.\<close>

fun scan_files :: "(nat \<Rightarrow> bool) \<Rightarrow> (path \<times> bytes) list \<Rightarrow> SecretFinding list" where
  "scan_files isalnum [] = []"
| "scan_files isalnum ((fp, b) # files) =
     (case read_text b of
        None \<Rightarrow> scan_files isalnum files
      | Some content \<Rightarrow>
          scan_lines isalnum fp 1 (splitlines content) @ scan_files isalnum files)"

definition scan_for_secrets :: "(nat \<Rightarrow> bool) \<Rightarrow> tree \<Rightarrow> SecretFinding list" where
  "scan_for_secrets isalnum directory = scan_files isalnum (rglob_files directory [])"

text \<open>\<open>generate_gitignore()\<close>: the fixed deny-list, as the bytes \<open>write_text\<close> stores.\<close>

definition generate_gitignore :: bytes where
  "generate_gitignore = concat (map (\<lambda>l. l @ [CHR 0x0A])
    [ ''# Secrets '' @ [CHR 0xE2, CHR 0x80, CHR 0x94] @ '' ''
        @ [CHR 0xEC, CHR 0xA0, CHR 0x88, CHR 0xEB, CHR 0x8C, CHR 0x80] @ '' ''
        @ [CHR 0xEB, CHR 0x8F, CHR 0x99, CHR 0xEA, CHR 0xB8, CHR 0xB0, CHR 0xED, CHR 0x99,
           CHR 0x94, CHR 0xED, CHR 0x95, CHR 0x98, CHR 0xEB, CHR 0xA9, CHR 0xB4] @ '' ''
        @ [CHR 0xEC, CHR 0x95, CHR 0x88] @ '' ''
        @ [CHR 0xEB, CHR 0x90, CHR 0x98, CHR 0xEB, CHR 0x8A, CHR 0x94] @ '' ''
        @ [CHR 0xED, CHR 0x8C, CHR 0x8C, CHR 0xEC, CHR 0x9D, CHR 0xBC],
      ''**/api_key*'',
      ''**/*token*'',
      ''**/*secret*'',
      ''**/credentials*'',
      ''**/.env'',
      ''**/.env.*'',
      [],
      ''# Claude Code ''
        @ [CHR 0xEB, CHR 0xB9, CHR 0x84, CHR 0xEB, CHR 0x8F, CHR 0x99, CHR 0xEA, CHR 0xB8,
           CHR 0xB0, CHR 0xED, CHR 0x99, CHR 0x94] @ '' ''
        @ [CHR 0xEB, CHR 0x8C, CHR 0x80, CHR 0xEC, CHR 0x83, CHR 0x81],
      ''debug/'',
      ''cache/'',
      ''paste-cache/'',
      ''session-env/'',
      ''statusline.log'',
      ''stats-cache.json'',
      ''statsig/'',
      ''settings.local.json'',
      [],
      ''# OS'',
      ''.DS_Store'',
      ''Thumbs.db'' ])"

section \<open>File operations of the platform\<close>

datatype error =
    FileExistsError | NotADirectoryError | IsADirectoryError | GitOpsError | GitCommandError

text \<open>
  \<open>d.mkdir(parents=True, exist_ok=True)\<close> fails where \<open>d\<close> is a regular file, or lies below
  one. The directories it makes hold no file yet and do not show in the tree.
\<close>

definition mkdir_parents :: "tree \<Rightarrow> path \<Rightarrow> error option" where
  "mkdir_parents t d =
     (if is_file t d then Some FileExistsError
      else if list_ex (\<lambda>(q, _). strict_prefix q d) t then Some NotADirectoryError
      else None)"

text \<open>Writing a file replaces the bytes at its path, or adds the path to the listing.\<close>

definition write_file :: "path \<Rightarrow> bytes \<Rightarrow> tree \<Rightarrow> tree" where
  "write_file p b t = AList.update p b t"

text \<open>
  \<open>shutil.copy2(src, dst)\<close>: where \<open>dst\<close> is a directory the file goes inside it, under the
  name of \<open>src\<close>; that fails when a directory sits there too.
\<close>

definition copy2 :: "path \<times> bytes \<Rightarrow> path \<Rightarrow> tree \<Rightarrow> error + tree" where
  "copy2 src dst t =
     (if is_dir t dst then
        (let inner = dst @ [name (fst src)] in
         if is_dir t inner then Inl IsADirectoryError
         else Inr (write_file inner (snd src) t))
      else Inr (write_file dst (snd src) t))"

text \<open>
  The step that the three copying functions of the engine share, for a file at \<open>relative\<close> in one
  directory and the other directory \<open>t\<close>:
  \<open>dst = t / relative; dst.parent.mkdir(parents=True, exist_ok=True); shutil.copy2(src, dst)\<close>.
\<close>

definition copy_into :: "path \<times> bytes \<Rightarrow> tree \<Rightarrow> error + tree" where
  "copy_into src t =
     (case mkdir_parents t (butlast (fst src)) of
        Some e \<Rightarrow> Inl e
      | None \<Rightarrow> copy2 src (fst src) t)"

section \<open>The version-control backend (core/git\_ops.py)\<close>

text \<open>
  Git itself is not code of the repository. Its state is modelled by the index and the
  commits reachable from HEAD, newest first, each with the tree it recorded; the working tree
  is the mirror directory without \<open>.git\<close>. Three things git decides are parameters: which
  paths the ignore rules in force exclude, which commit a name denotes, and (for the scanner)
  the Unicode table. Nested repositories, file modes and branches are not modelled.
\<close>

record commit =
  hexsha :: string
  commit_message :: string
  committed_datetime :: string
  snapshot :: tree

record Repo =
  index :: tree
  commits :: "commit list"
  remotes :: "(string \<times> string) list"

record platform =
  isalnum :: "nat \<Rightarrow> bool"
  check_ignore :: "tree \<Rightarrow> path \<Rightarrow> bool"
  rev_parse :: "commit list \<Rightarrow> string \<Rightarrow> commit option"

text \<open>
  What the clock and git supply when a commit is made: \<open>datetime.now()\<close> as \<open>strftime\<close>
  prints it, the commit's time as \<open>isoformat\<close> prints it, and the new commit's id.
\<close>

record stamp =
  strftime_now :: string
  commit_time :: string
  new_hexsha :: string

text \<open>
  A \<open>GitOps\<close> object over the mirror directory: no repository there yet; a repository that
  this object has not loaded (\<open>_repo is None\<close>); a loaded repository.
\<close>

datatype GitOps = NoRepo | Closed Repo | Opened Repo

definition empty_repo :: Repo where
  "empty_repo = \<lparr>index = [], commits = [], remotes = []\<rparr>"


fun repo :: "GitOps \<Rightarrow> error + Repo" where
  "repo (Opened r) = Inr r"
| "repo (Closed r) = Inl GitOpsError"
| "repo NoRepo = Inl GitOpsError"


definition worktree :: "tree \<Rightarrow> tree" where
  "worktree m = filter (\<lambda>(p, _). \<not> prefix [''.git''] p) m"

definition head_tree :: "Repo \<Rightarrow> tree" where
  "head_tree r = (case commits r of [] \<Rightarrow> [] | c # _ \<Rightarrow> snapshot c)"

definition same_tree :: "tree \<Rightarrow> tree \<Rightarrow> bool" where
  "same_tree a b = list_all (\<lambda>p. map_of a p = map_of b p) (map fst a @ map fst b)"

definition tracked :: "Repo \<Rightarrow> path \<Rightarrow> bool" where
  "tracked r p = (map_of (index r) p \<noteq> None)"

text \<open>
  \<open>repo.git.add(A=True)\<close>: the index becomes the working tree, without the untracked files
  that are ignored.
\<close>

definition git_add_all :: "platform \<Rightarrow> tree \<Rightarrow> Repo \<Rightarrow> Repo" where
  "git_add_all P m r =
     r\<lparr>index := filter (\<lambda>(p, _). tracked r p \<or> \<not> check_ignore P m p) (worktree m)\<rparr>"

text \<open>\<open>repo.is_dirty(index=True, working_tree=False, untracked_files=False)\<close>.\<close>

definition index_dirty :: "Repo \<Rightarrow> bool" where
  "index_dirty r = (\<not> same_tree (index r) (head_tree r))"


text \<open>\<open>repo.index.commit(message)\<close>: a new commit of the index on top of HEAD.\<close>

definition index_commit :: "stamp \<Rightarrow> string \<Rightarrow> Repo \<Rightarrow> Repo" where
  "index_commit st msg r =
     r\<lparr>commits :=
         \<lparr>hexsha = new_hexsha st, commit_message = msg, committed_datetime = commit_time st,
          snapshot = index r\<rparr> # commits r\<rparr>"

definition add_and_commit ::
  "platform \<Rightarrow> stamp \<Rightarrow> string option \<Rightarrow> tree \<Rightarrow> GitOps \<Rightarrow> (error + bool) \<times> GitOps" where
  "add_and_commit P st message m g =
     (case repo g of
        Inl e \<Rightarrow> (Inl e, g)
      | Inr r \<Rightarrow>
          (let r1 = git_add_all P m r in
           if \<not> index_dirty r1 then (Inr False, Opened r1)
           else
             (let msg = (case message of
                           None \<Rightarrow> ''claude-sync: auto-sync '' @ strftime_now st
                         | Some given \<Rightarrow> given)
              in (Inr True, Opened (index_commit st msg r1)))))"

text \<open>
  \<open>get_log(limit)\<close>, newest first. \<open>files_changed\<close>, a diff against the parent commit, is
  left out: nothing in the engine reads it.
\<close>

record LogEntry =
  sha :: string
  log_message :: string
  date :: string

definition get_log :: "nat \<Rightarrow> GitOps \<Rightarrow> error + LogEntry list" where
  "get_log limit g =
     (case repo g of
        Inl e \<Rightarrow> Inl e
      | Inr r \<Rightarrow>
          Inr (map (\<lambda>c. \<lparr>sha = hexsha c, log_message = commit_message c,
                         date = committed_datetime c\<rparr>)
                   (take limit (commits r))))"





section \<open>The synchronisation engine (core/sync\_engine.py)\<close>

text \<open>
  The messages of a result are formatted from a count; they are kept as the case and the
  count: none, "N secrets detected, push stopped", "N files synchronised", "no changes",
  "N files restored".
\<close>

datatype message = NoMessage | SecretsDetected nat | FilesSynced nat | NoChanges | FilesRestored nat

record SyncResult =
  files_synced :: nat
  committed :: bool
  secrets_found :: bool
  secret_details :: "string list"
  message :: message

definition SyncResult_default :: SyncResult where
  "SyncResult_default =
     \<lparr>files_synced = 0, committed = False, secrets_found = False, secret_details = [],
      message = NoMessage\<rparr>"

record SyncStatus =
  in_sync :: bool
  changed_files :: "string list"
  last_sync :: "string option"

text \<open>
  The engine with the three directories it works on and its \<open>GitOps\<close> object. The exclusion
  list is the constant it reads at construction.
\<close>

record SyncEngine =
  claude_dir :: tree
  sync_repo_dir :: tree
  backup_dir :: "tree option"
  max_tier :: SyncTier
  git_ops :: GitOps


definition get_sync_patterns :: "SyncEngine \<Rightarrow> string list" where
  "get_sync_patterns s = map pattern (get_rules_by_tier (max_tier s))"

fun is_excluded_in :: "string list \<Rightarrow> string \<Rightarrow> bool" where
  "is_excluded_in [] relative_path = False"
| "is_excluded_in (pat # pats) relative_path =
     (if endswith pat ''/'' then
        (let stripped = rstrip_slash pat in
         if startswith relative_path pat \<or> startswith relative_path stripped then True
         else is_excluded_in pats relative_path)
      else if relative_path = pat \<or> endswith relative_path (''/'' @ pat) then True
      else is_excluded_in pats relative_path)"

definition is_excluded :: "string \<Rightarrow> bool" where
  "is_excluded relative_path = is_excluded_in get_excluded_patterns relative_path"

text \<open>The loop of \<open>_copy_to_sync_repo\<close> over the files found, with the mirror and the count.\<close>

fun copy_to_loop :: "(path \<times> bytes) list \<Rightarrow> tree \<Rightarrow> nat \<Rightarrow> (error + nat) \<times> tree" where
  "copy_to_loop [] m count = (Inr count, m)"
| "copy_to_loop (src # files) m count =
     (if is_excluded (str_of (fst src)) then copy_to_loop files m count
      else (case copy_into src m of
              Inl e \<Rightarrow> (Inl e, m)
            | Inr m' \<Rightarrow> copy_to_loop files m' (count + 1)))"

definition copy_to_sync_repo :: "SyncEngine \<Rightarrow> (error + nat) \<times> SyncEngine" where
  "copy_to_sync_repo s =
     (let patterns = get_sync_patterns s;
          files = list_syncable_files (claude_dir s) patterns
      in case copy_to_loop files (sync_repo_dir s) 0 of
           (r, m) \<Rightarrow> (r, s\<lparr>sync_repo_dir := m\<rparr>))"

text \<open>The loop of \<open>_copy_from_sync_repo\<close> over the files of the mirror.\<close>

fun copy_from_loop :: "(path \<times> bytes) list \<Rightarrow> tree \<Rightarrow> nat \<Rightarrow> (error + nat) \<times> tree" where
  "copy_from_loop [] c count = (Inr count, c)"
| "copy_from_loop (src # files) c count =
     (if startswith (str_of (fst src)) ''.git'' then copy_from_loop files c count
      else if name (fst src) = ''.gitignore'' then copy_from_loop files c count
      else (case copy_into src c of
              Inl e \<Rightarrow> (Inl e, c)
            | Inr c' \<Rightarrow> copy_from_loop files c' (count + 1)))"

definition copy_from_sync_repo :: "SyncEngine \<Rightarrow> (error + nat) \<times> SyncEngine" where
  "copy_from_sync_repo s =
     (case copy_from_loop (rglob_files (sync_repo_dir s) []) (claude_dir s) 0 of
        (r, c) \<Rightarrow> (r, s\<lparr>claude_dir := c\<rparr>))"

text \<open>The loop of \<open>_create_backup\<close> over the files found, with the backup directory.\<close>

fun backup_loop :: "(path \<times> bytes) list \<Rightarrow> tree \<Rightarrow> error option \<times> tree" where
  "backup_loop [] b = (None, b)"
| "backup_loop (src # files) b =
     (case copy_into src b of
        Inl e \<Rightarrow> (Some e, b)
      | Inr b' \<Rightarrow> backup_loop files b')"

definition create_backup :: "SyncEngine \<Rightarrow> error option \<times> SyncEngine" where
  "create_backup s =
     (let s1 = (if backup_dir s \<noteq> None then s\<lparr>backup_dir := None\<rparr> else s);
          s2 = s1\<lparr>backup_dir := Some []\<rparr>;
          patterns = get_sync_patterns s2;
          files = list_syncable_files (claude_dir s2) patterns
      in case backup_loop files [] of
           (e, b) \<Rightarrow> (e, s2\<lparr>backup_dir := Some b\<rparr>))"

text \<open>\<open>synced.exists()\<close> and \<open>filecmp.cmp(src, synced, shallow=False)\<close>.\<close>

definition exists :: "tree \<Rightarrow> path \<Rightarrow> bool" where
  "exists t p = (is_file t p \<or> is_dir t p)"

definition filecmp_cmp :: "bytes \<Rightarrow> tree \<Rightarrow> path \<Rightarrow> bool" where
  "filecmp_cmp b t p = (map_of t p = Some b)"

fun find_changed_loop :: "(path \<times> bytes) list \<Rightarrow> tree \<Rightarrow> string list" where
  "find_changed_loop [] m = []"
| "find_changed_loop (src # files) m =
     (if is_excluded (str_of (fst src)) then find_changed_loop files m
      else if \<not> exists m (fst src) then str_of (fst src) # find_changed_loop files m
      else if \<not> filecmp_cmp (snd src) m (fst src)
           then str_of (fst src) # find_changed_loop files m
      else find_changed_loop files m)"

definition find_changed_files :: "SyncEngine \<Rightarrow> string list" where
  "find_changed_files s =
     (let patterns = get_sync_patterns s;
          files = list_syncable_files (claude_dir s) patterns
      in find_changed_loop files (sync_repo_dir s))"

text \<open>The decimal digits of a number, for \<open>f"{name}:{line_number} - {pattern_name}"\<close>.\<close>

fun decimal :: "nat \<Rightarrow> string" where
  "decimal n = (if n < 10 then [''0123456789'' ! n]
                else decimal (n div 10) @ [''0123456789'' ! (n mod 10)])"

declare decimal.simps [simp del]

definition secret_detail :: "SecretFinding \<Rightarrow> string" where
  "secret_detail f =
     name (file_path f) @ '':'' @ decimal (line_number f) @ '' - '' @ pattern_name f"

definition push ::
  "platform \<Rightarrow> stamp \<Rightarrow> string option \<Rightarrow> SyncEngine \<Rightarrow> (error + SyncResult) \<times> SyncEngine" where
  "push P st msg s =
     (let result = SyncResult_default;
          secrets = scan_for_secrets (isalnum P) (claude_dir s)
      in if secrets \<noteq> [] then
           (Inr (result\<lparr>secrets_found := True,
                        secret_details := map secret_detail secrets,
                        message := SecretsDetected (length secrets)\<rparr>), s)
         else
           (case copy_to_sync_repo s of
              (Inl e, s1) \<Rightarrow> (Inl e, s1)
            | (Inr files_copied, s1) \<Rightarrow>
                (case add_and_commit P st msg (sync_repo_dir s1) (git_ops s1) of
                   (Inl e, g) \<Rightarrow> (Inl e, s1\<lparr>git_ops := g\<rparr>)
                 | (Inr was_committed, g) \<Rightarrow>
                     (Inr (result\<lparr>files_synced := files_copied,
                                  committed := was_committed,
                                  message := (if was_committed then FilesSynced files_copied
                                              else NoChanges)\<rparr>),
                      s1\<lparr>git_ops := g\<rparr>))))"

definition pull :: "SyncEngine \<Rightarrow> (error + SyncResult) \<times> SyncEngine" where
  "pull s =
     (case create_backup s of
        (Some e, s1) \<Rightarrow> (Inl e, s1)
      | (None, s1) \<Rightarrow>
          (case copy_from_sync_repo s1 of
             (Inl e, s2) \<Rightarrow> (Inl e, s2)
           | (Inr files_copied, s2) \<Rightarrow>
               (Inr (SyncResult_default\<lparr>files_synced := files_copied,
                                        message := FilesRestored files_copied\<rparr>), s2)))"

definition status :: "SyncEngine \<Rightarrow> error + SyncStatus" where
  "status s =
     (let changed = find_changed_files s in
      case get_log 1 (git_ops s) of
        Inl e \<Rightarrow> Inl e
      | Inr log \<Rightarrow>
          Inr \<lparr>in_sync = (length changed = 0), changed_files = changed,
               last_sync = (case log of [] \<Rightarrow> None | entry # _ \<Rightarrow> Some (date entry))\<rparr>)"

section \<open>The restore command (cli.py)\<close>


section \<open>Notions used in the statements\<close>

text \<open>What one signature contributes for one line: a finding with the leftmost match, or nothing.\<close>

definition finding :: "path \<Rightarrow> nat \<Rightarrow> pystr \<Rightarrow> regex \<Rightarrow> SecretFinding list" where
  "finding fp n line p =
     (case search (items p) line of
        Some m \<Rightarrow>
          [\<lparr>file_path = fp, line_number = n, matched_text = m, pattern_name = source p\<rparr>]
      | None \<Rightarrow> [])"

text \<open>
  A well-formed tree, as a file system presents one: no path is listed twice, every path has
  at least one part, no part is empty or holds a separator, and no file lies below another file.
\<close>

definition wf_part :: "string \<Rightarrow> bool" where
  "wf_part c = (c \<noteq> [] \<and> CHR ''/'' \<notin> set c)"

definition wf_tree :: "tree \<Rightarrow> bool" where
  "wf_tree t =
     (distinct (map fst t)
      \<and> list_all (\<lambda>(p, _). p \<noteq> [] \<and> list_all wf_part p \<and> \<not> is_dir t p) t)"

text \<open>
  The exclusion match in the words of the specification: a directory-style pattern matches a
  relative path that equals it, equals it without the trailing separator, or starts with
  either form; a file-style pattern matches a path that equals it or ends with the separator
  and the pattern.
\<close>

definition matches_exclusion :: "string \<Rightarrow> string \<Rightarrow> bool" where
  "matches_exclusion pat relative_path =
     (if endswith pat ''/''
      then (relative_path = pat \<or> relative_path = rstrip_slash pat
            \<or> startswith relative_path pat \<or> startswith relative_path (rstrip_slash pat))
      else (relative_path = pat \<or> endswith relative_path (''/'' @ pat)))"

text \<open>The copy step repeated over a list of files, stopping at the first failure.\<close>

fun copy_all :: "(path \<times> bytes) list \<Rightarrow> tree \<Rightarrow> error option \<times> tree" where
  "copy_all [] t = (None, t)"
| "copy_all (src # files) t =
     (case copy_into src t of
        Inl e \<Rightarrow> (Some e, t)
      | Inr t' \<Rightarrow> copy_all files t')"

text \<open>The paths the copy of a file at \<open>p\<close> may write: \<open>p\<close>, or inside a directory found at \<open>p\<close>.\<close>

definition targets :: "path \<Rightarrow> path set" where
  "targets p = {p, p @ [name p]}"

text \<open>What \<open>pull\<close> leaves in the mirror: paths that print with the prefix \<open>.git\<close>, and deny-list files.\<close>

definition pull_skips :: "path \<Rightarrow> bool" where
  "pull_skips p = (startswith (str_of p) ''.git'' \<or> name p = ''.gitignore'')"

text \<open>No path of the list lies below another.\<close>

definition prefix_free :: "path list \<Rightarrow> bool" where
  "prefix_free ps = (\<forall>p \<in> set ps. \<forall>q \<in> set ps. \<not> strict_prefix p q)"

text \<open>
  Selection in the words of the specification: a directory-style pattern (trailing
  separator) selects the regular files below the directory; a file-style pattern selects the
  file it names.
\<close>

definition selects :: "string \<Rightarrow> path \<Rightarrow> bool" where
  "selects pat p =
     (if endswith pat ''/'' then strict_prefix (parts (rstrip_slash pat)) p else p = parts pat)"

definition selected :: "string list \<Rightarrow> path \<Rightarrow> bool" where
  "selected pats p = list_ex (\<lambda>pat. selects pat p) pats"




subsection \<open>Example inputs\<close>

text \<open>
  A platform for the examples: no alphanumeric character above 127 (the examples are ASCII),
  no ignore rule, and commits named by their full id.
\<close>

definition ascii_only :: "nat \<Rightarrow> bool" where
  "ascii_only c = False"

definition example_platform :: platform where
  "example_platform =
     \<lparr>isalnum = ascii_only, check_ignore = (\<lambda>m p. False),
      rev_parse = (\<lambda>cs ref. find (\<lambda>c. hexsha c = ref) cs)\<rparr>"

definition example_stamp :: "string \<Rightarrow> stamp" where
  "example_stamp n =
     \<lparr>strftime_now = ''2025-01-0'' @ n @ '' 12:00:00'',
      commit_time = ''2025-01-0'' @ n @ ''T12:00:00'', new_hexsha = ''c'' @ n\<rparr>"

text \<open>A line with two keys of the generic \<open>sk-\<close> shape, and that signature.\<close>

definition two_keys :: bytes where
  "two_keys = ''sk-aaaaaaaaaaaaaaaaaaaa sk-bbbbbbbbbbbbbbbbbbbb''"

definition generic_sk :: regex where
  "generic_sk =
     \<lparr>source = ''sk-[a-zA-Z0-9]{20,}'', items = [Lit (str ''sk-''), Rep ascii_alnum 20 None]\<rparr>"


text \<open>
  A source directory with an excluded file inside a selected directory, an empty mirror and
  an older backup.
\<close>

definition example_engine :: SyncEngine where
  "example_engine =
     \<lparr>claude_dir = [([''CLAUDE.md''], ''# Test''), ([''agents'', ''coder.md''], ''agent config''),
                    ([''agents'', ''stats-cache.json''], ''{}'')],
      sync_repo_dir = [], backup_dir = Some [([''old_file.txt''], ''old'')],
      max_tier = TIER2, git_ops = Opened empty_repo\<rparr>"

text \<open>
  A mirror with backend metadata at the root, a nested repository, deny-list files at two
  depths and another root file whose name begins with \<open>.git\<close>.
\<close>

definition example_mirror :: SyncEngine where
  "example_mirror =
     \<lparr>claude_dir = [],
      sync_repo_dir = [([''.git'', ''HEAD''], ''ref: refs/heads/main''),
                       ([''.gitignore''], ''debug/''),
                       ([''.gitattributes''], ''* text=auto''),
                       ([''agents'', ''.git'', ''config''], ''[core]''),
                       ([''agents'', ''.gitignore''], ''*.tmp''),
                       ([''CLAUDE.md''], ''# Test'')],
      backup_dir = None, max_tier = TIER2, git_ops = NoRepo\<rparr>"


text \<open>
  A history of two commits: the second changed \<open>CLAUDE.md\<close> and added \<open>agents/new.md\<close>. In
  \<open>two_commits\<close> the mirror and the source are at the second commit and no object has loaded
  the repository; in \<open>synced_engine\<close> the engine has; \<open>edited_mirror\<close> is the mirror with a
  file edited since the second commit.
\<close>

definition first_commit :: commit where
  "first_commit =
     \<lparr>hexsha = ''c1'', commit_message = ''first'', committed_datetime = ''2025-01-01T12:00:00'',
      snapshot = [([''.gitignore''], generate_gitignore), ([''CLAUDE.md''], ''# Test'')]\<rparr>"

definition second_commit :: commit where
  "second_commit =
     \<lparr>hexsha = ''c2'', commit_message = ''second'', committed_datetime = ''2025-01-02T12:00:00'',
      snapshot = [([''.gitignore''], generate_gitignore), ([''CLAUDE.md''], ''# New''),
                  ([''agents'', ''new.md''], ''notes'')]\<rparr>"

definition history :: Repo where
  "history = \<lparr>index = snapshot second_commit, commits = [second_commit, first_commit],
              remotes = []\<rparr>"




section \<open>Theorems\<close>

lemma get_rules_by_tier_nested:
  assumes "tier_value m \<le> tier_value n"
  shows "get_rules_by_tier m =
         filter (\<lambda>r. tier_value (tier r) \<le> tier_value m) (get_rules_by_tier n)"
proof -
  have "(tier_value (tier r) \<le> tier_value n \<and> tier_value (tier r) \<le> tier_value m)
        = (tier_value (tier r) \<le> tier_value m)" for r :: SyncRule
    using assms by auto
  then show ?thesis
    by (simp add: get_rules_by_tier_def)
qed

lemma list_syncable_files_append:
  "list_syncable_files t (ps @ qs) = list_syncable_files t ps @ list_syncable_files t qs"
  by (induction ps) (simp_all add: Let_def)

lemma list_syncable_files_mono:
  "set ps \<subseteq> set qs \<Longrightarrow> set (list_syncable_files t ps) \<subseteq> set (list_syncable_files t qs)"
proof (induction ps)
  case Nil
  then show ?case by simp
next
  case (Cons p ps)
  then have "p \<in> set qs" by simp
  then obtain us vs where "qs = us @ p # vs"
    by (auto simp: in_set_conv_decomp)
  then have "set (list_syncable_files t [p]) \<subseteq> set (list_syncable_files t qs)"
    by (auto simp: list_syncable_files_append Let_def)
  moreover have "set (list_syncable_files t ps) \<subseteq> set (list_syncable_files t qs)"
    using Cons by simp
  moreover have "list_syncable_files t (p # ps)
                 = list_syncable_files t [p] @ list_syncable_files t ps"
    using list_syncable_files_append [of t "[p]" ps] by simp
  ultimately show ?case by simp
qed

text \<open>
  C9. For tiers \<open>m \<le> n\<close> the rule list for \<open>m\<close> is a subsequence of the rule list for
  \<open>n\<close>, so the files selected at \<open>m\<close> are among the files selected at \<open>n\<close> in every source
  tree. For every tier the returned list holds exactly the declared rules of that tier or
  below, and it is a subsequence of the declaration list: declaration order is kept.
\<close>

theorem rules_by_tier_monotone:
  assumes "tier_value m \<le> tier_value n"
  shows "subseq (get_rules_by_tier m) (get_rules_by_tier n)
       \<and> set (list_syncable_files t (map pattern (get_rules_by_tier m)))
           \<subseteq> set (list_syncable_files t (map pattern (get_rules_by_tier n)))
       \<and> set (get_rules_by_tier k)
           = {r \<in> set get_default_rules. tier_value (tier r) \<le> tier_value k}
       \<and> subseq (get_rules_by_tier k) get_default_rules"
proof -
  have sub: "subseq (get_rules_by_tier m) (get_rules_by_tier n)"
    using get_rules_by_tier_nested [OF assms] by simp
  have "set (get_rules_by_tier m) \<subseteq> set (get_rules_by_tier n)"
    by (subst get_rules_by_tier_nested [OF assms]) simp
  then have "set (map pattern (get_rules_by_tier m)) \<subseteq> set (map pattern (get_rules_by_tier n))"
    by auto
  then have files: "set (list_syncable_files t (map pattern (get_rules_by_tier m)))
         \<subseteq> set (list_syncable_files t (map pattern (get_rules_by_tier n)))"
    by (rule list_syncable_files_mono)
  have exact: "set (get_rules_by_tier k)
         = {r \<in> set get_default_rules. tier_value (tier r) \<le> tier_value k}"
    by (simp add: get_rules_by_tier_def)
  have order: "subseq (get_rules_by_tier k) get_default_rules"
    by (simp add: get_rules_by_tier_def)
  from sub files exact order show ?thesis by blast
qed

theorem rules_by_tier_monotone_witness:
  "tier_value TIER1 \<le> tier_value TIER2
   \<and> subseq (get_rules_by_tier TIER1) (get_rules_by_tier TIER2)
   \<and> map pattern (get_rules_by_tier TIER1)
       = [''CLAUDE.md'', ''settings.json'', ''agents/'', ''plugins/installed_plugins.json'']
   \<and> map pattern (get_rules_by_tier TIER2)
       = [''CLAUDE.md'', ''settings.json'', ''agents/'', ''plugins/installed_plugins.json'',
          ''skills/'', ''history.jsonl'']"
proof -
  have h: "tier_value TIER1 \<le> tier_value TIER2" by simp
  show ?thesis
    using h rules_by_tier_monotone [OF h]
    by (simp add: get_rules_by_tier_def get_default_rules_def)
qed


subsection \<open>The scanner\<close>

lemma scan_line_concat: "scan_line fp n line ps = concat (map (finding fp n line) ps)"
  by (induction ps) (simp_all add: finding_def split: option.splits)

lemma scan_lines_concat:
  "scan_lines ua fp n lines
   = concat (map (\<lambda>(i, line). scan_line fp i line (SECRET_PATTERNS ua)) (enumerate n lines))"
  by (induction lines arbitrary: n) simp_all

lemma scan_line_numbers: "f \<in> set (scan_line fp n line ps) \<Longrightarrow> line_number f = n"
  by (induction ps) (auto split: option.splits)

lemma scan_lines_lower: "f \<in> set (scan_lines ua fp n lines) \<Longrightarrow> n \<le> line_number f"
proof (induction lines arbitrary: n)
  case Nil
  then show ?case by simp
next
  case (Cons l ls)
  then show ?case
    using scan_line_numbers [of f fp n l] Cons.IH [of "Suc n"] by fastforce
qed

lemma sorted_constant: "\<forall>x \<in> set xs. f x = (n::nat) \<Longrightarrow> sorted (map f xs)"
  by (induction xs) auto

lemma scan_lines_sorted: "sorted (map line_number (scan_lines ua fp n lines))"
proof (induction lines arbitrary: n)
  case Nil
  then show ?case by simp
next
  case (Cons l ls)
  have a: "sorted (map line_number (scan_line fp n l (SECRET_PATTERNS ua)))"
    by (rule sorted_constant [where n = n]) (simp add: scan_line_numbers)
  have b: "line_number x \<le> line_number y"
    if "x \<in> set (scan_line fp n l (SECRET_PATTERNS ua))" "y \<in> set (scan_lines ua fp (Suc n) ls)"
    for x y
    using scan_line_numbers [OF that(1)] scan_lines_lower [OF that(2)] by simp
  show ?case
    using a b Cons.IH [of "Suc n"] by (auto simp: sorted_append)
qed

lemma search_leftmost:
  "search re s = Some m \<Longrightarrow>
   \<exists>i n. match_at re (drop i s) = Some n \<and> m = take n (drop i s)
         \<and> (\<forall>j<i. match_at re (drop j s) = None)"
proof (induction s)
  case Nil
  then show ?case by (cases "match_at re []") auto
next
  case (Cons c cs)
  show ?case
  proof (cases "match_at re (c # cs)")
    case (Some n)
    with Cons.prems have "m = take n (c # cs)" by simp
    with Some show ?thesis by (intro exI [of _ 0] exI [of _ n]) simp
  next
    case None
    with Cons.prems have "search re cs = Some m" by simp
    from Cons.IH [OF this] obtain i n where
      h: "match_at re (drop i cs) = Some n" "m = take n (drop i cs)"
         "\<forall>j<i. match_at re (drop j cs) = None" by blast
    have "\<forall>j<Suc i. match_at re (drop j (c # cs)) = None"
    proof (intro allI impI)
      fix j assume "j < Suc i"
      then show "match_at re (drop j (c # cs)) = None"
        using None h(3) by (cases j) auto
    qed
    with h show ?thesis by (intro exI [of _ "Suc i"] exI [of _ n]) simp
  qed
qed




lemma rglob_files_root: "rglob_files t [] = filter (\<lambda>(q, _). q \<noteq> []) t"
proof -
  have "strict_prefix [] q = (q \<noteq> [])" for q :: path by (cases q) simp_all
  then show ?thesis by (simp add: rglob_files_def)
qed

lemmas scan_eval = scan_for_secrets_def rglob_files_def read_text_def splitlines_def
  SECRET_PATTERNS_def str_def Let_def linebreak_def ascii_alnum_def cls_w_def cls_w_hyphen_def
  cls_alnum_underscore_def cls_alnum_underscore_hyphen_def cont_byte_def try_len.simps
  ascii_only_def two_keys_def

lemma two_keys_text: "read_text two_keys = Some (str two_keys)"
  by (simp add: read_text_def two_keys_def str_def)




lemma two_keys_scan:
  "scan_for_secrets ascii_only [([''notes.txt''], two_keys)]
   = [\<lparr>file_path = [''notes.txt''], line_number = 1,
       matched_text = str ''sk-aaaaaaaaaaaaaaaaaaaa'', pattern_name = source generic_sk\<rparr>]"
  by (simp add: scan_eval generic_sk_def)



text \<open>
  C5, as stated, fails: the line of \<open>two_keys\<close> holds two keys that the generic \<open>sk-\<close>
  signature matches, one at offset 0 and one at offset 24, and the scan of a file with that
  line records one finding, for the first.
\<close>

theorem two_occurrences_one_finding:
  "match_at (items generic_sk) (str two_keys) = Some 23
   \<and> match_at (items generic_sk) (drop 24 (str two_keys)) = Some 23
   \<and> generic_sk \<in> set (SECRET_PATTERNS ascii_only)
   \<and> scan_for_secrets ascii_only [([''notes.txt''], two_keys)]
       = [\<lparr>file_path = [''notes.txt''], line_number = 1,
           matched_text = str ''sk-aaaaaaaaaaaaaaaaaaaa'', pattern_name = source generic_sk\<rparr>]"
  by (simp add: scan_eval generic_sk_def)

text \<open>
  C5, amended. The findings of a file that decodes are, line by line from the top (lines
  counted from 1) and, within a line, signature by signature in the order of the list, one
  finding for each signature that matches somewhere in the line: at most one for a line and
  a signature, and its text is the leftmost match. So the findings of a file are ordered by
  line number, and a file can yield several.
\<close>

theorem scan_records_leftmost_match_per_line_and_signature:
  assumes "read_text b = Some content"
  shows "scan_files ua [(fp, b)]
           = concat (map (\<lambda>(n, line). concat (map (finding fp n line) (SECRET_PATTERNS ua)))
                         (enumerate 1 (splitlines content)))
       \<and> sorted (map line_number (scan_files ua [(fp, b)]))
       \<and> (\<forall>sig n line. length (finding fp n line sig) \<le> 1)
       \<and> (\<forall>sig n line f. f \<in> set (finding fp n line sig) \<longrightarrow>
            (\<exists>i k. match_at (items sig) (drop i line) = Some k
                   \<and> matched_text f = take k (drop i line)
                   \<and> (\<forall>j<i. match_at (items sig) (drop j line) = None)))"
proof -
  have files: "scan_files ua [(fp, b)] = scan_lines ua fp 1 (splitlines content)"
    using assms by simp
  have "scan_lines ua fp 1 (splitlines content)
        = concat (map (\<lambda>(n, line). concat (map (finding fp n line) (SECRET_PATTERNS ua)))
                      (enumerate 1 (splitlines content)))"
    by (simp add: scan_lines_concat scan_line_concat)
  with files have a: "scan_files ua [(fp, b)]
           = concat (map (\<lambda>(n, line). concat (map (finding fp n line) (SECRET_PATTERNS ua)))
                         (enumerate 1 (splitlines content)))"
    by simp
  have b: "sorted (map line_number (scan_files ua [(fp, b)]))"
    unfolding files by (rule scan_lines_sorted)
  have c: "\<forall>sig n line. length (finding fp n line sig) \<le> 1"
    by (simp add: finding_def split: option.splits)
  have d: "\<exists>i k. match_at (items sig) (drop i line) = Some k
                   \<and> matched_text f = take k (drop i line)
                   \<and> (\<forall>j<i. match_at (items sig) (drop j line) = None)"
    if "f \<in> set (finding fp n line sig)" for sig n line f
  proof (cases "search (items sig) line")
    case None
    with that show ?thesis by (simp add: finding_def)
  next
    case (Some m)
    with that have "matched_text f = m" by (simp add: finding_def)
    with search_leftmost [OF Some] show ?thesis by auto
  qed
  from a b c d show ?thesis by blast
qed

theorem scan_records_leftmost_match_per_line_and_signature_witness:
  "read_text two_keys = Some (str two_keys)
   \<and> scan_files ascii_only [([''notes.txt''], two_keys)]
       = [\<lparr>file_path = [''notes.txt''], line_number = 1,
           matched_text = str ''sk-aaaaaaaaaaaaaaaaaaaa'', pattern_name = source generic_sk\<rparr>]
   \<and> length (finding [''notes.txt''] 1 (str two_keys) generic_sk) \<le> 1"
proof -
  have t: "read_text two_keys = Some (str two_keys)" by (rule two_keys_text)
  show ?thesis
    using t scan_records_leftmost_match_per_line_and_signature [OF t, of ascii_only "[''notes.txt'']"]
      two_keys_scan
    by (simp add: scan_for_secrets_def rglob_files_root)
qed


subsection \<open>Trees and the copy step\<close>

lemma map_of_write: "map_of (write_file p b t) q = (if q = p then Some b else map_of t q)"
  by (simp add: write_file_def update_conv')

lemma keys_write: "fst ` set (write_file p b t) = insert p (fst ` set t)"
  by (simp add: write_file_def dom_update)

lemma distinct_write: "distinct (map fst t) \<Longrightarrow> distinct (map fst (write_file p b t))"
  by (simp add: write_file_def distinct_update)

lemma is_dir_iff: "is_dir t p \<longleftrightarrow> (\<exists>q \<in> fst ` set t. strict_prefix p q)"
  by (force simp: is_dir_def list_ex_iff)

lemma is_dir_write: "is_dir (write_file q b t) p \<longleftrightarrow> is_dir t p \<or> strict_prefix p q"
  by (auto simp: is_dir_iff keys_write)

lemma is_file_iff: "is_file t p \<longleftrightarrow> p \<in> fst ` set t"
  by (simp add: is_file_def map_of_eq_None_iff)

lemma copy_into_cases:
  assumes "copy_into src t = Inr t'"
  shows "(\<not> is_dir t (fst src) \<and> t' = write_file (fst src) (snd src) t)
       \<or> (is_dir t (fst src) \<and> t' = write_file (fst src @ [name (fst src)]) (snd src) t)"
  using assms
  by (auto simp: copy_into_def copy2_def Let_def split: option.splits if_splits)

lemma copy_into_frame:
  assumes "copy_into src t = Inr t'" and "p \<notin> targets (fst src)"
  shows "map_of t' p = map_of t p"
  using copy_into_cases [OF assms(1)] assms(2)
  by (auto simp: targets_def map_of_write)


lemma copy_all_frame:
  "copy_all fs t = (e, t') \<Longrightarrow> \<forall>src \<in> set fs. p \<notin> targets (fst src) \<Longrightarrow> map_of t' p = map_of t p"
proof (induction fs arbitrary: t)
  case Nil
  then show ?case by simp
next
  case (Cons src fs)
  show ?case
  proof (cases "copy_into src t")
    case (Inl a)
    with Cons.prems show ?thesis by simp
  next
    case (Inr t1)
    with Cons.prems have "copy_all fs t1 = (e, t')" by simp
    from Cons.IH [OF this] Cons.prems(2) have "map_of t' p = map_of t1 p" by simp
    also have "map_of t1 p = map_of t p"
      using copy_into_frame [OF Inr] Cons.prems(2) by simp
    finally show ?thesis .
  qed
qed


lemma strict_prefix_snoc: "strict_prefix p (q @ [x]) \<longleftrightarrow> prefix p q"
  by (auto simp: strict_prefix_def)

lemma copy_all_effect:
  assumes "copy_all fs t = (None, t')"
    and "distinct (map fst fs)" and "prefix_free (map fst fs)"
    and "(p, b) \<in> set fs" and "\<not> is_dir t p"
  shows "map_of t' p = Some b"
  using assms
proof (induction fs arbitrary: t)
  case Nil
  then show ?case by simp
next
  case (Cons src fs)
  obtain q v where src: "src = (q, v)" by (cases src)
  from Cons.prems(1) obtain t1 where t1: "copy_into src t = Inr t1" "copy_all fs t1 = (None, t')"
    by (cases "copy_into src t") auto
  have pf: "prefix_free (map fst fs)" and d: "distinct (map fst fs)"
    using Cons.prems(2,3) by (auto simp: prefix_free_def)
  show ?case
  proof (cases "(p, b) = src")
    case True
    then have pq: "q = p" "v = b" using src by auto
    from copy_into_cases [OF t1(1)] Cons.prems(5) True
    have "t1 = write_file p b t" by auto
    then have "map_of t1 p = Some b" by (simp add: map_of_write)
    moreover have "\<forall>s \<in> set fs. p \<notin> targets (fst s)"
    proof
      fix s assume s: "s \<in> set fs"
      then have "fst s \<noteq> p" using Cons.prems(2) src pq by auto
      moreover have "fst s @ [name (fst s)] \<noteq> p"
      proof
        assume "fst s @ [name (fst s)] = p"
        then have "strict_prefix (fst s) p" by (auto simp: strict_prefix_def)
        then show False using Cons.prems(3) s src pq by (auto simp: prefix_free_def)
      qed
      ultimately show "p \<notin> targets (fst s)" by (simp add: targets_def)
    qed
    ultimately show ?thesis using copy_all_frame [OF t1(2)] by simp
  next
    case False
    then have mem: "(p, b) \<in> set fs" using Cons.prems(4) by simp
    have "p \<noteq> q" using mem Cons.prems(2) src by force
    have npq: "\<not> strict_prefix p q"
      using mem Cons.prems(3) src by (force simp: prefix_free_def)
    have "\<not> is_dir t1 p"
      using copy_into_cases [OF t1(1)] Cons.prems(5) npq \<open>p \<noteq> q\<close> src
      by (auto simp: is_dir_write strict_prefix_snoc strict_prefix_def)
    from Cons.IH [OF t1(2) d pf mem this] show ?thesis .
  qed
qed

lemma copy_to_loop_copy_all:
  "copy_to_loop files m n =
     (case copy_all (filter (\<lambda>src. \<not> is_excluded (str_of (fst src))) files) m of
        (None, m') \<Rightarrow>
          (Inr (n + length (filter (\<lambda>src. \<not> is_excluded (str_of (fst src))) files)), m')
      | (Some e, m') \<Rightarrow> (Inl e, m'))"
  by (induction files arbitrary: m n) (auto split: sum.splits prod.splits option.splits)

lemma copy_from_loop_copy_all:
  "copy_from_loop files c n =
     (case copy_all (filter (\<lambda>src. \<not> pull_skips (fst src)) files) c of
        (None, c') \<Rightarrow> (Inr (n + length (filter (\<lambda>src. \<not> pull_skips (fst src)) files)), c')
      | (Some e, c') \<Rightarrow> (Inl e, c'))"
  by (induction files arbitrary: c n)
     (auto simp: pull_skips_def split: sum.splits prod.splits option.splits)

lemma backup_loop_copy_all: "backup_loop files b = copy_all files b"
  by (induction files arbitrary: b) (auto split: sum.splits)

lemma list_syncable_files_subset: "set (list_syncable_files t pats) \<subseteq> set t"
proof (induction pats)
  case Nil
  then show ?case by simp
next
  case (Cons pat pats)
  have "(parts pat, b) \<in> set t" if "map_of t (parts pat) = Some b" for b
    using that by (rule map_of_SomeD)
  then show ?case
    using Cons by (auto simp: Let_def rglob_files_def split: option.splits)
qed

lemma wf_treeD:
  assumes "wf_tree t" and "(p, b) \<in> set t"
  shows "p \<noteq> []" and "list_all wf_part p" and "\<not> is_dir t p"
  using assms by (auto simp: wf_tree_def list_all_iff)

lemma wf_tree_distinct: "wf_tree t \<Longrightarrow> distinct (map fst t)"
  by (simp add: wf_tree_def)

lemma wf_tree_prefix_free:
  assumes "wf_tree t" and "set fs \<subseteq> set t"
  shows "prefix_free (map fst fs)"
proof -
  have "\<not> strict_prefix p q" if "p \<in> fst ` set fs" "q \<in> fst ` set fs" for p q
  proof -
    from that assms(2) obtain b where "(p, b) \<in> set t" by auto
    from wf_treeD(3) [OF assms(1) this] have "\<not> is_dir t p" .
    moreover have "q \<in> fst ` set t" using that assms(2) by auto
    ultimately show ?thesis by (auto simp: is_dir_iff)
  qed
  then show ?thesis by (simp add: prefix_free_def)
qed

lemma wf_tree_map_of: "wf_tree t \<Longrightarrow> (p, b) \<in> set t \<Longrightarrow> map_of t p = Some b"
  by (simp add: wf_tree_def)

subsection \<open>Exclusion\<close>

lemma is_excluded_in_iff:
  "is_excluded_in pats rp \<longleftrightarrow> (\<exists>pat \<in> set pats. matches_exclusion pat rp)"
  by (induction pats) (auto simp: matches_exclusion_def Let_def startswith_def)

lemma is_excluded_iff:
  "is_excluded rp \<longleftrightarrow> (\<exists>pat \<in> set get_excluded_patterns. matches_exclusion pat rp)"
  by (simp add: is_excluded_def is_excluded_in_iff)

lemma str_of_snoc: "p \<noteq> [] \<Longrightarrow> str_of (p @ [x]) = str_of p @ ''/'' @ x"
  by (induction p rule: str_of.induct) simp_all

lemma str_of_last: "p \<noteq> [] \<Longrightarrow> str_of p = last p \<or> suffix (''/'' @ last p) (str_of p)"
proof (induction p rule: str_of.induct)
  case 1
  then show ?case by simp
next
  case (2 a)
  then show ?case by simp
next
  case (3 a b r)
  then have "str_of (b # r) = last (b # r) \<or> suffix (''/'' @ last (b # r)) (str_of (b # r))"
    by simp
  then show ?case
  proof
    assume "str_of (b # r) = last (b # r)"
    then have "str_of (a # b # r) = a @ ''/'' @ last (a # b # r)" by simp
    then show ?thesis by (metis suffixI)
  next
    assume "suffix (''/'' @ last (b # r)) (str_of (b # r))"
    then obtain u where "str_of (b # r) = u @ ''/'' @ last (b # r)" by (auto simp: suffix_def)
    then have "str_of (a # b # r) = (a @ ''/'' @ u) @ ''/'' @ last (a # b # r)" by simp
    then show ?thesis by (metis suffixI)
  qed
qed

lemma prefix_inner:
  assumes "prefix d (s @ ''/'' @ l)" and "CHR ''/'' \<notin> set d"
  shows "prefix d s"
proof -
  from assms(1) have "prefix d s \<or> (\<exists>us. d = s @ us \<and> prefix us (''/'' @ l))"
    by (simp add: prefix_append)
  then show ?thesis
  proof
    assume "prefix d s" then show ?thesis .
  next
    assume "\<exists>us. d = s @ us \<and> prefix us (''/'' @ l)"
    then obtain us where us: "d = s @ us" "prefix us (''/'' @ l)" by blast
    show ?thesis
    proof (cases us)
      case Nil
      with us show ?thesis by simp
    next
      case (Cons u us')
      with us(2) have "u = CHR ''/''" by simp
      with Cons us(1) assms(2) show ?thesis by simp
    qed
  qed
qed

lemma last_part_unique:
  assumes "s @ ''/'' @ l = u @ ''/'' @ f" and "CHR ''/'' \<notin> set f" and "CHR ''/'' \<notin> set l"
  shows "f = l"
proof -
  let ?P = "\<lambda>c. c \<noteq> CHR ''/''"
  have l: "takeWhile ?P (rev l @ CHR ''/'' # rev s) = rev l"
    using assms(3) by (auto simp: takeWhile_tail)
  have f: "takeWhile ?P (rev f @ CHR ''/'' # rev u) = rev f"
    using assms(2) by (auto simp: takeWhile_tail)
  have "rev (s @ ''/'' @ l) = rev (u @ ''/'' @ f)" using assms(1) by simp
  then have "rev l @ CHR ''/'' # rev s = rev f @ CHR ''/'' # rev u" by simp
  with l f have "rev l = rev f" by simp
  then show ?thesis by simp
qed

lemma suffix_inner:
  assumes "suffix (''/'' @ f) (s @ ''/'' @ l)" and "CHR ''/'' \<notin> set f" and "CHR ''/'' \<notin> set l"
  shows "f = l"
proof -
  from assms(1) obtain u where "s @ ''/'' @ l = u @ ''/'' @ f" by (auto simp: suffix_def)
  from last_part_unique [OF this assms(2,3)] show ?thesis .
qed

lemma rstrip_slash_prefix: "prefix (rstrip_slash pat) pat"
proof -
  let ?P = "\<lambda>c. c = CHR ''/''"
  have "rev (takeWhile ?P (rev pat) @ dropWhile ?P (rev pat)) = pat" by simp
  then have "rstrip_slash pat @ rev (takeWhile ?P (rev pat)) = pat"
    by (simp add: rstrip_slash_def del: takeWhile_dropWhile_id)
  then show ?thesis by (metis prefixI)
qed

lemma excluded_patterns_simple:
  assumes "pat \<in> set get_excluded_patterns"
  shows "if endswith pat ''/'' then CHR ''/'' \<notin> set (rstrip_slash pat) else CHR ''/'' \<notin> set pat"
  using assms
  by (auto simp: get_excluded_patterns_def endswith_def rstrip_slash_def suffix_to_prefix)

lemma matches_exclusion_inner:
  assumes m: "matches_exclusion pat (str_of (rel @ [last rel]))"
    and simple: "if endswith pat ''/'' then CHR ''/'' \<notin> set (rstrip_slash pat) else CHR ''/'' \<notin> set pat"
    and rel: "rel \<noteq> []" and part: "wf_part (last rel)"
  shows "matches_exclusion pat (str_of rel)"
proof -
  have s: "str_of (rel @ [last rel]) = str_of rel @ ''/'' @ last rel"
    using rel by (rule str_of_snoc)
  show ?thesis
  proof (cases "endswith pat ''/''")
    case True
    with simple have ns: "CHR ''/'' \<notin> set (rstrip_slash pat)" by simp
    have "prefix (rstrip_slash pat) (str_of (rel @ [last rel]))"
      using m True rstrip_slash_prefix [of pat]
      by (auto simp: matches_exclusion_def startswith_def intro: prefix_order.trans)
    then have "prefix (rstrip_slash pat) (str_of rel)"
      unfolding s using ns by (rule prefix_inner)
    then show ?thesis using True by (simp add: matches_exclusion_def startswith_def)
  next
    case False
    with simple have ns: "CHR ''/'' \<notin> set pat" by simp
    have nl: "CHR ''/'' \<notin> set (last rel)" using part by (simp add: wf_part_def)
    from m False have "str_of rel @ ''/'' @ last rel = pat
                     \<or> suffix (''/'' @ pat) (str_of rel @ ''/'' @ last rel)"
      by (simp add: matches_exclusion_def endswith_def s)
    then have "pat = last rel"
    proof
      assume "str_of rel @ ''/'' @ last rel = pat"
      then have "CHR ''/'' \<in> set pat" by auto
      with ns show ?thesis by simp
    next
      assume "suffix (''/'' @ pat) (str_of rel @ ''/'' @ last rel)"
      from suffix_inner [OF this ns nl] show ?thesis .
    qed
    with str_of_last [OF rel] show ?thesis
      using False by (auto simp: matches_exclusion_def endswith_def)
  qed
qed

lemma is_excluded_inner:
  assumes "is_excluded (str_of (rel @ [last rel]))" and "rel \<noteq> []" and "wf_part (last rel)"
  shows "is_excluded (str_of rel)"
proof -
  from assms(1) obtain pat where pat: "pat \<in> set get_excluded_patterns"
      "matches_exclusion pat (str_of (rel @ [last rel]))"
    by (auto simp: is_excluded_iff)
  from matches_exclusion_inner [OF pat(2) excluded_patterns_simple [OF pat(1)] assms(2,3)] pat(1)
  show ?thesis by (auto simp: is_excluded_iff)
qed

lemma excluded_not_target:
  assumes "wf_tree t" and "(rel, b) \<in> set t" and "\<not> is_excluded (str_of rel)"
    and "is_excluded (str_of p)"
  shows "p \<notin> targets rel"
proof -
  have rel: "rel \<noteq> []" and parts: "list_all wf_part rel"
    using wf_treeD [OF assms(1,2)] by auto
  then have "wf_part (last rel)" by (simp add: list_all_iff)
  with is_excluded_inner [of rel] rel assms(3)
  have "\<not> is_excluded (str_of (rel @ [last rel]))" by auto
  with assms(3,4) rel show ?thesis by (auto simp: targets_def name_def)
qed

lemma find_changed_loop_not_excluded:
  "x \<in> set (find_changed_loop files m) \<Longrightarrow> \<not> is_excluded x"
  by (induction files) (auto split: if_splits)

lemma push_mirror:
  "sync_repo_dir (snd (push P st msg s)) = sync_repo_dir s
   \<or> sync_repo_dir (snd (push P st msg s)) = sync_repo_dir (snd (copy_to_sync_repo s))"
  by (auto simp: push_def Let_def split: prod.splits sum.splits)


lemma write_set:
  "distinct (map fst t) \<Longrightarrow> map_of t q = None \<or> map_of t q = Some v \<Longrightarrow>
   set (write_file q v t) = insert (q, v) (set t)"
  unfolding write_file_def
  by (induction t) (auto simp: rev_image_eqI)

lemma copy_all_from_wf:
  assumes "wf_tree T" and "set fs \<subseteq> set T" and "set t \<subseteq> set T" and "distinct (map fst t)"
  shows "\<exists>t'. copy_all fs t = (None, t') \<and> set t' = set t \<union> set fs \<and> distinct (map fst t')"
  using assms(2,3,4)
proof (induction fs arbitrary: t)
  case Nil
  then show ?case by simp
next
  case (Cons src fs)
  obtain q v where src: "src = (q, v)" by (cases src)
  have qT: "(q, v) \<in> set T" using Cons.prems(1) src by simp
  have q: "q \<noteq> []" and qd: "\<not> is_dir T q" using wf_treeD [OF assms(1) qT] by auto
  have keys: "fst ` set t \<subseteq> fst ` set T" using Cons.prems(2) by auto
  have nodirT: "\<not> is_dir T r" if "r \<in> fst ` set t" for r
  proof -
    from that Cons.prems(2) obtain b where "(r, b) \<in> set T" by auto
    from wf_treeD(3) [OF assms(1) this] show ?thesis .
  qed
  have sp: "strict_prefix (butlast q) q"
    using q by (metis append_butlast_last_id prefixI strict_prefix_def self_append_conv snoc_eq_iff_butlast)
  have a: "\<not> is_file t (butlast q)"
  proof
    assume "is_file t (butlast q)"
    then have "butlast q \<in> fst ` set t" by (simp add: is_file_iff)
    from nodirT [OF this] sp qT show False by (force simp: is_dir_iff)
  qed
  have b: "\<not> list_ex (\<lambda>(r, _). strict_prefix r (butlast q)) t"
  proof
    assume "list_ex (\<lambda>(r, _). strict_prefix r (butlast q)) t"
    then obtain r where r: "r \<in> fst ` set t" "strict_prefix r (butlast q)"
      by (force simp: list_ex_iff)
    then have "strict_prefix r q" using sp by (metis prefix_order.less_trans)
    with nodirT [OF r(1)] qT show False by (force simp: is_dir_iff)
  qed
  have c: "\<not> is_dir t q"
  proof
    assume "is_dir t q"
    then obtain r where "r \<in> fst ` set t" "strict_prefix q r" by (auto simp: is_dir_iff)
    with keys have "r \<in> fst ` set T" "strict_prefix q r" by auto
    then have "is_dir T q" unfolding is_dir_iff by (rule bexI [rotated])
    with qd show False by simp
  qed
  have step: "copy_into src t = Inr (write_file q v t)"
    using a b c by (simp add: copy_into_def mkdir_parents_def copy2_def src)
  have "map_of t q = None \<or> map_of t q = Some v"
  proof (cases "map_of t q")
    case None
    then show ?thesis by simp
  next
    case (Some v0)
    then have "(q, v0) \<in> set T" using Cons.prems(2) by (auto dest: map_of_SomeD)
    then have "v0 = v" using qT wf_tree_distinct [OF assms(1)] by (meson eq_key_imp_eq_value)
    with Some show ?thesis by simp
  qed
  from write_set [OF Cons.prems(3) this]
  have s1: "set (write_file q v t) = insert (q, v) (set t)" .
  have "set fs \<subseteq> set T" using Cons.prems(1) by simp
  moreover have "set (write_file q v t) \<subseteq> set T" using s1 qT Cons.prems(2) by simp
  moreover have "distinct (map fst (write_file q v t))" using Cons.prems(3) by (rule distinct_write)
  ultimately obtain t' where t': "copy_all fs (write_file q v t) = (None, t')"
      "set t' = set (write_file q v t) \<union> set fs" "distinct (map fst t')"
    using Cons.IH by blast
  then show ?case using step s1 src by auto
qed

lemma list_syncable_files_one:
  assumes "wf_tree t"
  shows "(p, v) \<in> set (list_syncable_files t [pat]) \<longleftrightarrow> (p, v) \<in> set t \<and> selects pat p"
proof (cases "endswith pat ''/''")
  case True
  have "is_dir t d" if "(p, v) \<in> set t" "strict_prefix d p" for d
    using that by (force simp: is_dir_iff)
  then show ?thesis
    using True by (auto simp: Let_def selects_def rglob_files_def)
next
  case False
  have mo: "(map_of t q = Some b) = ((q, b) \<in> set t)" for q b
    using wf_tree_distinct [OF assms] by simp
  have "(p, v) \<in> set (case map_of t (parts pat) of Some b \<Rightarrow> [(parts pat, b)] | None \<Rightarrow> [])
        \<longleftrightarrow> (p, v) \<in> set t \<and> p = parts pat"
  proof (cases "map_of t (parts pat)")
    case None
    then have "(parts pat, v) \<notin> set t" using mo [of "parts pat" v] by simp
    with None show ?thesis by auto
  next
    case (Some b)
    have "(parts pat, v) \<in> set t \<longleftrightarrow> v = b" using mo [of "parts pat" v] Some by auto
    with Some show ?thesis by auto
  qed
  then show ?thesis
    using False by (simp add: Let_def selects_def)
qed

lemma list_syncable_files_iff:
  assumes "wf_tree t"
  shows "(p, v) \<in> set (list_syncable_files t pats) \<longleftrightarrow> (p, v) \<in> set t \<and> selected pats p"
proof (induction pats)
  case Nil
  then show ?case by (simp add: selected_def)
next
  case (Cons pat pats)
  have "list_syncable_files t (pat # pats)
        = list_syncable_files t [pat] @ list_syncable_files t pats"
    using list_syncable_files_append [of t "[pat]" pats] by simp
  then have "(p, v) \<in> set (list_syncable_files t (pat # pats))
        \<longleftrightarrow> (p, v) \<in> set (list_syncable_files t [pat]) \<or> (p, v) \<in> set (list_syncable_files t pats)"
    by simp
  then show ?case
    using Cons list_syncable_files_one [OF assms, of p v pat] by (auto simp: selected_def)
qed

lemma pull_backup:
  "backup_dir (snd (pull s)) = backup_dir (snd (create_backup s))"
  by (auto simp: pull_def copy_from_sync_repo_def split: prod.splits option.splits sum.splits)

lemma create_backup_result:
  "create_backup s =
     (fst (copy_all (list_syncable_files (claude_dir s) (get_sync_patterns s)) []),
      s\<lparr>backup_dir :=
           Some (snd (copy_all (list_syncable_files (claude_dir s) (get_sync_patterns s)) []))\<rparr>)"
  by (auto simp: create_backup_def Let_def backup_loop_copy_all get_sync_patterns_def
           split: prod.splits)


lemma str_of_hd: "prefix a (str_of (a # r))"
  by (cases r) simp_all

lemma skipped_not_target:
  assumes "\<not> pull_skips rel" and "rel \<noteq> []"
    and "prefix [''.git''] p \<or> name p = ''.gitignore''"
  shows "p \<notin> targets rel"
proof
  assume "p \<in> targets rel"
  then have "p = rel \<or> p = rel @ [name rel]" by (simp add: targets_def)
  moreover obtain a r where rel: "rel = a # r" using assms(2) by (cases rel) auto
  ultimately have "prefix [''.git''] rel \<or> name rel = ''.gitignore''"
    using assms(3) by (auto simp: name_def)
  then show False
  proof
    assume "prefix [''.git''] rel"
    then have "a = ''.git''" using rel by simp
    then have "prefix ''.git'' (str_of rel)" using str_of_hd [of a r] rel by simp
    with assms(1) show False by (simp add: pull_skips_def startswith_def)
  next
    assume "name rel = ''.gitignore''"
    with assms(1) show False by (simp add: pull_skips_def)
  qed
qed

lemma wf_tree_rglob_root: "wf_tree t \<Longrightarrow> rglob_files t [] = t"
proof -
  assume "wf_tree t"
  then have "\<forall>x \<in> set t. (case x of (q, _) \<Rightarrow> q \<noteq> [])"
    by (auto simp: wf_tree_def list_all_iff)
  then show ?thesis by (simp add: rglob_files_root)
qed

lemma create_backup_frame:
  "claude_dir (snd (create_backup s)) = claude_dir s
   \<and> sync_repo_dir (snd (create_backup s)) = sync_repo_dir s
   \<and> git_ops (snd (create_backup s)) = git_ops s
   \<and> max_tier (snd (create_backup s)) = max_tier s"
  by (simp add: create_backup_result)

lemma pull_unfold:
  assumes "pull s = (Inr r, s')"
  shows "fst (create_backup s) = None
       \<and> copy_from_loop (rglob_files (sync_repo_dir s) []) (claude_dir s) 0
           = (Inr (files_synced r), claude_dir s')
       \<and> sync_repo_dir s' = sync_repo_dir s
       \<and> backup_dir s' = backup_dir (snd (create_backup s))"
proof -
  obtain e s1 where c: "create_backup s = (e, s1)" by (cases "create_backup s")
  have f: "claude_dir s1 = claude_dir s" "sync_repo_dir s1 = sync_repo_dir s"
    using create_backup_frame [of s] c by auto
  from assms c have e: "e = None" by (cases e) (auto simp: pull_def)
  obtain x c' where l: "copy_from_loop (rglob_files (sync_repo_dir s) []) (claude_dir s) 0 = (x, c')"
    by (cases "copy_from_loop (rglob_files (sync_repo_dir s) []) (claude_dir s) 0")
  from assms c e l f show ?thesis
    by (cases x) (auto simp: pull_def copy_from_sync_repo_def SyncResult_default_def)
qed



subsection \<open>The examples, evaluated\<close>

lemmas fs_eval = pull_def create_backup_def copy_from_sync_repo_def copy_to_sync_repo_def
  get_sync_patterns_def get_rules_by_tier_def get_default_rules_def Let_def
  rglob_files_def is_dir_def is_file_def parts_def endswith_def startswith_def rstrip_slash_def
  suffix_to_prefix copy_into_def copy2_def mkdir_parents_def write_file_def name_def
  SyncResult_default_def

lemmas excl_eval = is_excluded_def get_excluded_patterns_def endswith_def startswith_def
  rstrip_slash_def suffix_to_prefix

lemmas git_eval = add_and_commit_def git_add_all_def worktree_def index_dirty_def same_tree_def
  head_tree_def tracked_def index_commit_def example_platform_def example_stamp_def
  empty_repo_def

lemma example_engine_wf: "wf_tree (claude_dir example_engine)"
  by (simp add: wf_tree_def example_engine_def is_dir_def wf_part_def)

lemma example_engine_no_secrets:
  "scan_for_secrets ascii_only (claude_dir example_engine) = []"
  by (simp add: example_engine_def scan_eval)

lemma example_engine_push:
  "push example_platform (example_stamp ''1'') None example_engine
   = (Inr \<lparr>files_synced = 2, committed = True, secrets_found = False, secret_details = [],
           message = FilesSynced 2\<rparr>,
      example_engine
        \<lparr>sync_repo_dir := [([''CLAUDE.md''], ''# Test''),
                           ([''agents'', ''coder.md''], ''agent config'')],
         git_ops := Opened
           \<lparr>index = [([''CLAUDE.md''], ''# Test''), ([''agents'', ''coder.md''], ''agent config'')],
            commits = [\<lparr>hexsha = ''c1'',
                        commit_message = ''claude-sync: auto-sync 2025-01-01 12:00:00'',
                        committed_datetime = ''2025-01-01T12:00:00'',
                        snapshot = [([''CLAUDE.md''], ''# Test''),
                                    ([''agents'', ''coder.md''], ''agent config'')]\<rparr>],
            remotes = []\<rparr>\<rparr>)"
proof -
  have "scan_for_secrets (isalnum example_platform) (claude_dir example_engine) = []"
    using example_engine_no_secrets by (simp add: example_platform_def)
  then show ?thesis
    by (simp add: push_def example_engine_def fs_eval excl_eval git_eval)
qed

lemma example_engine_status:
  "status example_engine
   = Inr \<lparr>in_sync = False, changed_files = [''CLAUDE.md'', ''agents/coder.md''],
          last_sync = None\<rparr>"
  by (simp add: status_def find_changed_files_def get_log_def exists_def filecmp_cmp_def
        example_engine_def fs_eval excl_eval empty_repo_def)

lemma excluded_example: "is_excluded ''agents/stats-cache.json''"
  by (simp add: is_excluded_def get_excluded_patterns_def endswith_def startswith_def
        rstrip_slash_def suffix_to_prefix)


lemma example_engine_pull:
  "pull example_engine
   = (Inr \<lparr>files_synced = 0, committed = False, secrets_found = False, secret_details = [],
           message = FilesRestored 0\<rparr>,
      example_engine
        \<lparr>backup_dir :=
           Some [([''CLAUDE.md''], ''# Test''), ([''agents'', ''coder.md''], ''agent config''),
                 ([''agents'', ''stats-cache.json''], ''{}'')]\<rparr>)"
  by (simp add: example_engine_def fs_eval)

lemma example_mirror_wf: "wf_tree (sync_repo_dir example_mirror)"
  by (simp add: wf_tree_def example_mirror_def is_dir_def wf_part_def)

lemma example_mirror_pull:
  "pull example_mirror
   = (Inr \<lparr>files_synced = 2, committed = False, secrets_found = False, secret_details = [],
           message = FilesRestored 2\<rparr>,
      example_mirror
        \<lparr>claude_dir := [([''agents'', ''.git'', ''config''], ''[core]''),
                        ([''CLAUDE.md''], ''# Test'')],
         backup_dir := Some []\<rparr>)"
  by (simp add: example_mirror_def fs_eval)

subsection \<open>Exclusion in push and status\<close>

text \<open>
  C8. Let the relative path \<open>p\<close> match an exclusion pattern as the specification words it.
  Then the engine's test excludes it; whatever \<open>push\<close> does, the mirror holds at \<open>p\<close> what it
  held before (the path is never copied, also when it lies in a selected directory); and no
  status lists it as changed. The source is a well-formed tree.
\<close>

theorem excluded_paths_are_never_copied_nor_reported:
  assumes "wf_tree (claude_dir s)"
    and "pat \<in> set get_excluded_patterns"
    and "matches_exclusion pat (str_of p)"
  shows "is_excluded (str_of p)
       \<and> map_of (sync_repo_dir (snd (push P st msg s))) p = map_of (sync_repo_dir s) p
       \<and> (\<forall>r. status s = Inr r \<longrightarrow> str_of p \<notin> set (changed_files r))"
proof -
  have ex: "is_excluded (str_of p)" using assms(2,3) by (auto simp: is_excluded_iff)
  let ?files = "list_syncable_files (claude_dir s) (get_sync_patterns s)"
  let ?copied = "filter (\<lambda>src. \<not> is_excluded (str_of (fst src))) ?files"
  have nt: "\<forall>src \<in> set ?copied. p \<notin> targets (fst src)"
  proof
    fix src assume src: "src \<in> set ?copied"
    then have "(fst src, snd src) \<in> set (claude_dir s)"
      using list_syncable_files_subset [of "claude_dir s" "get_sync_patterns s"] by auto
    from excluded_not_target [OF assms(1) this _ ex] src show "p \<notin> targets (fst src)" by simp
  qed
  obtain e m' where c: "copy_all ?copied (sync_repo_dir s) = (e, m')"
    by (cases "copy_all ?copied (sync_repo_dir s)")
  have "sync_repo_dir (snd (copy_to_sync_repo s)) = m'"
    using c by (auto simp: copy_to_sync_repo_def Let_def copy_to_loop_copy_all split: option.splits)
  moreover have "map_of m' p = map_of (sync_repo_dir s) p"
    using copy_all_frame [OF c nt] .
  ultimately have mirror: "map_of (sync_repo_dir (snd (push P st msg s))) p = map_of (sync_repo_dir s) p"
    using push_mirror [of P st msg s] by auto
  have "str_of p \<notin> set (find_changed_files s)"
    using find_changed_loop_not_excluded [of "str_of p"] ex
    by (auto simp: find_changed_files_def Let_def)
  then have "\<forall>r. status s = Inr r \<longrightarrow> str_of p \<notin> set (changed_files r)"
    by (auto simp: status_def Let_def split: sum.splits)
  with ex mirror show ?thesis by blast
qed

theorem excluded_paths_are_never_copied_nor_reported_witness:
  "wf_tree (claude_dir example_engine)
   \<and> ''stats-cache.json'' \<in> set get_excluded_patterns
   \<and> matches_exclusion ''stats-cache.json'' (str_of [''agents'', ''stats-cache.json''])
   \<and> map_of (claude_dir example_engine) [''agents'', ''stats-cache.json''] = Some ''{}''
   \<and> selected (get_sync_patterns example_engine) [''agents'', ''stats-cache.json'']
   \<and> map_of (sync_repo_dir (snd (push example_platform (example_stamp ''1'') None example_engine)))
         [''agents'', ''stats-cache.json''] = None
   \<and> map_of (sync_repo_dir (snd (push example_platform (example_stamp ''1'') None example_engine)))
         [''agents'', ''coder.md''] = Some ''agent config''
   \<and> status example_engine
       = Inr \<lparr>in_sync = False, changed_files = [''CLAUDE.md'', ''agents/coder.md''],
              last_sync = None\<rparr>"
proof -
  have a: "''stats-cache.json'' \<in> set get_excluded_patterns"
    by (simp add: get_excluded_patterns_def)
  have b: "matches_exclusion ''stats-cache.json'' (str_of [''agents'', ''stats-cache.json''])"
    by (simp add: matches_exclusion_def endswith_def suffix_to_prefix)
  have c: "selected (get_sync_patterns example_engine) [''agents'', ''stats-cache.json'']"
    by (simp add: selected_def selects_def example_engine_def fs_eval)
  from excluded_paths_are_never_copied_nor_reported [OF example_engine_wf a b,
        of example_platform "example_stamp ''1''" None]
  have "map_of (sync_repo_dir (snd (push example_platform (example_stamp ''1'') None example_engine)))
         [''agents'', ''stats-cache.json'']
        = map_of (sync_repo_dir example_engine) [''agents'', ''stats-cache.json'']"
    by blast
  then show ?thesis
    using example_engine_wf a b c example_engine_status
    by (simp add: example_engine_push) (simp add: example_engine_def)
qed

subsection \<open>The backup made by pull\<close>

text \<open>
  C3, as stated, fails: \<open>agents/stats-cache.json\<close> matches an exclusion pattern, and the
  backup that \<open>pull\<close> makes of the example source holds it.
\<close>

theorem backup_copies_an_excluded_file:
  "is_excluded (str_of [''agents'', ''stats-cache.json''])
   \<and> backup_dir (snd (pull example_engine))
       = Some [([''CLAUDE.md''], ''# Test''), ([''agents'', ''coder.md''], ''agent config''),
               ([''agents'', ''stats-cache.json''], ''{}'')]"
  using excluded_example by (simp add: example_engine_pull)

text \<open>
  C3, amended. For a well-formed source, the backup step of \<open>pull\<close> succeeds and leaves a
  backup directory that holds exactly the source files that an active tier pattern selects,
  each at its relative path with its bytes; the exclusion patterns play no part.
\<close>

theorem backup_holds_the_tier_selected_files:
  assumes "wf_tree (claude_dir s)"
  shows "\<exists>b. fst (create_backup s) = None \<and> backup_dir (snd (pull s)) = Some b
           \<and> distinct (map fst b)
           \<and> (\<forall>p v. map_of b p = Some v
                 \<longleftrightarrow> map_of (claude_dir s) p = Some v \<and> selected (get_sync_patterns s) p)"
proof -
  let ?files = "list_syncable_files (claude_dir s) (get_sync_patterns s)"
  have "set ?files \<subseteq> set (claude_dir s)" by (rule list_syncable_files_subset)
  from copy_all_from_wf [OF assms this, of "[]"] obtain b where
    b: "copy_all ?files [] = (None, b)" "set b = set ?files" "distinct (map fst b)" by auto
  have "map_of b p = Some v \<longleftrightarrow> map_of (claude_dir s) p = Some v \<and> selected (get_sync_patterns s) p"
    for p v
  proof -
    have "map_of b p = Some v \<longleftrightarrow> (p, v) \<in> set ?files" using b(2,3) by simp
    also have "\<dots> \<longleftrightarrow> (p, v) \<in> set (claude_dir s) \<and> selected (get_sync_patterns s) p"
      by (rule list_syncable_files_iff [OF assms])
    also have "\<dots> \<longleftrightarrow> map_of (claude_dir s) p = Some v \<and> selected (get_sync_patterns s) p"
      using wf_tree_distinct [OF assms] by simp
    finally show ?thesis .
  qed
  then show ?thesis
    using b by (simp add: pull_backup create_backup_result)
qed

theorem backup_holds_the_tier_selected_files_witness:
  "wf_tree (claude_dir example_engine)
   \<and> (\<exists>b. backup_dir (snd (pull example_engine)) = Some b
          \<and> map_of b [''agents'', ''coder.md''] = Some ''agent config''
          \<and> map_of b [''old_file.txt''] = None)"
proof -
  from backup_holds_the_tier_selected_files [OF example_engine_wf] obtain b where
    b: "backup_dir (snd (pull example_engine)) = Some b"
       "\<forall>p v. map_of b p = Some v
           \<longleftrightarrow> map_of (claude_dir example_engine) p = Some v
               \<and> selected (get_sync_patterns example_engine) p"
    by blast
  have "map_of b [''agents'', ''coder.md''] = Some ''agent config''"
    using b(2) by (simp add: example_engine_def selected_def selects_def fs_eval)
  moreover have "map_of b [''old_file.txt''] = None"
  proof (cases "map_of b [''old_file.txt'']")
    case None
    then show ?thesis .
  next
    case (Some v)
    with b(2) have "map_of (claude_dir example_engine) [''old_file.txt''] = Some v" by blast
    then show ?thesis by (simp add: example_engine_def)
  qed
  ultimately show ?thesis using b(1) example_engine_wf by blast
qed


text \<open>
  C10. The backup directory after \<open>pull\<close> does not depend on what it held before, and it
  exists; when the backup step fails nothing is copied from the mirror; a pull from an empty
  mirror copies no file and leaves the source as it was, and has replaced the backup all the
  same; and for a well-formed source every file of the new backup is a file of the source as
  it was at the call.
\<close>

theorem pull_replaces_the_backup:
  "backup_dir (snd (pull (s\<lparr>backup_dir := old\<rparr>))) = backup_dir (snd (pull (s\<lparr>backup_dir := None\<rparr>)))
   \<and> backup_dir (snd (pull s)) \<noteq> None
   \<and> (fst (create_backup s) \<noteq> None \<longrightarrow> claude_dir (snd (pull s)) = claude_dir s)
   \<and> (sync_repo_dir s = [] \<longrightarrow>
        claude_dir (snd (pull s)) = claude_dir s
        \<and> (\<forall>r. fst (pull s) = Inr r \<longrightarrow> files_synced r = 0))
   \<and> (wf_tree (claude_dir s) \<longrightarrow>
        (\<forall>b. backup_dir (snd (pull s)) = Some b \<longrightarrow> set b \<subseteq> set (claude_dir s)))"
proof -
  have a: "backup_dir (snd (pull (s\<lparr>backup_dir := old\<rparr>)))
           = backup_dir (snd (pull (s\<lparr>backup_dir := None\<rparr>)))"
    by (simp add: pull_backup create_backup_result get_sync_patterns_def)
  have b: "backup_dir (snd (pull s)) \<noteq> None"
    by (simp add: pull_backup create_backup_result)
  have c: "claude_dir (snd (pull s)) = claude_dir s" if "fst (create_backup s) \<noteq> None"
    using that create_backup_frame [of s]
    by (cases "create_backup s") (auto simp: pull_def split: option.splits)
  have d: "claude_dir (snd (pull s)) = claude_dir s
           \<and> (\<forall>r. fst (pull s) = Inr r \<longrightarrow> files_synced r = 0)"
    if "sync_repo_dir s = []"
    using that create_backup_frame [of s]
    by (cases "create_backup s")
       (auto simp: pull_def copy_from_sync_repo_def rglob_files_def SyncResult_default_def
             split: option.splits)
  have e: "set b \<subseteq> set (claude_dir s)"
    if "wf_tree (claude_dir s)" "backup_dir (snd (pull s)) = Some b" for b
  proof -
    let ?files = "list_syncable_files (claude_dir s) (get_sync_patterns s)"
    have sub: "set ?files \<subseteq> set (claude_dir s)" by (rule list_syncable_files_subset)
    from copy_all_from_wf [OF that(1) sub, of "[]"] obtain b' where
      b': "copy_all ?files [] = (None, b')" "set b' = set ?files" by auto
    with that(2) have "b = b'" by (simp add: pull_backup create_backup_result)
    with b'(2) sub show ?thesis by simp
  qed
  from a b c d e show ?thesis by blast
qed

theorem pull_replaces_the_backup_witness:
  "sync_repo_dir example_engine = []
   \<and> backup_dir example_engine = Some [([''old_file.txt''], ''old'')]
   \<and> backup_dir (snd (pull example_engine))
       = backup_dir (snd (pull (example_engine\<lparr>backup_dir := None\<rparr>)))
   \<and> backup_dir (snd (pull example_engine))
       = Some [([''CLAUDE.md''], ''# Test''), ([''agents'', ''coder.md''], ''agent config''),
               ([''agents'', ''stats-cache.json''], ''{}'')]
   \<and> claude_dir (snd (pull example_engine)) = claude_dir example_engine"
proof -
  have "example_engine\<lparr>backup_dir := Some [([''old_file.txt''], ''old'')]\<rparr> = example_engine"
    by (simp add: example_engine_def)
  with pull_replaces_the_backup [where s = example_engine
         and old = "Some [([''old_file.txt''], ''old'')]"]
  have "backup_dir (snd (pull example_engine))
        = backup_dir (snd (pull (example_engine\<lparr>backup_dir := None\<rparr>)))"
    by simp
  then show ?thesis
    by (simp add: example_engine_pull) (simp add: example_engine_def)
qed

lemma pull_effect:
  assumes "wf_tree (sync_repo_dir s)" and "pull s = (Inr r, s')"
  shows "fst (create_backup s) = None \<and> backup_dir s' = backup_dir (snd (create_backup s))
       \<and> sync_repo_dir s' = sync_repo_dir s
       \<and> files_synced r = length (filter (\<lambda>src. \<not> pull_skips (fst src)) (sync_repo_dir s))
       \<and> (\<forall>p b. (p, b) \<in> set (sync_repo_dir s) \<and> \<not> pull_skips p \<and> \<not> is_dir (claude_dir s) p
              \<longrightarrow> map_of (claude_dir s') p = Some b)
       \<and> (\<forall>p. prefix [''.git''] p \<or> name p = ''.gitignore''
              \<longrightarrow> map_of (claude_dir s') p = map_of (claude_dir s) p)"
proof -
  let ?m = "sync_repo_dir s"
  let ?fs = "filter (\<lambda>src. \<not> pull_skips (fst src)) ?m"
  from pull_unfold [OF assms(2)] have u: "fst (create_backup s) = None"
      "copy_from_loop ?m (claude_dir s) 0 = (Inr (files_synced r), claude_dir s')"
      "sync_repo_dir s' = ?m" "backup_dir s' = backup_dir (snd (create_backup s))"
    by (simp_all add: wf_tree_rglob_root [OF assms(1)])
  obtain e c' where ca: "copy_all ?fs (claude_dir s) = (e, c')"
    by (cases "copy_all ?fs (claude_dir s)")
  from u(2) ca have e: "e = None" and c': "c' = claude_dir s'"
    and n: "files_synced r = length ?fs"
    by (cases e; simp add: copy_from_loop_copy_all)+
  have ca': "copy_all ?fs (claude_dir s) = (None, claude_dir s')" using ca e c' by simp
  have d: "distinct (map fst ?fs)"
    using wf_tree_distinct [OF assms(1)] by (rule distinct_map_filter)
  have pf: "prefix_free (map fst ?fs)"
    by (rule wf_tree_prefix_free [OF assms(1)]) auto
  have copied: "map_of (claude_dir s') p = Some b"
    if "(p, b) \<in> set ?m" "\<not> pull_skips p" "\<not> is_dir (claude_dir s) p" for p b
  proof -
    have "(p, b) \<in> set ?fs" using that by simp
    from copy_all_effect [OF ca' d pf this that(3)] show ?thesis .
  qed
  have kept: "map_of (claude_dir s') p = map_of (claude_dir s) p"
    if "prefix [''.git''] p \<or> name p = ''.gitignore''" for p
  proof -
    have "\<forall>src \<in> set ?fs. p \<notin> targets (fst src)"
    proof
      fix src assume src: "src \<in> set ?fs"
      then have "(fst src, snd src) \<in> set ?m" by simp
      from wf_treeD(1) [OF assms(1) this] have "fst src \<noteq> []" .
      with skipped_not_target [OF _ this that] src show "p \<notin> targets (fst src)" by simp
    qed
    from copy_all_frame [OF ca' this] show ?thesis .
  qed
  from u n copied kept show ?thesis by blast
qed


subsection \<open>What pull copies\<close>

text \<open>
  C4, as stated, fails twice on the example mirror: \<open>.gitattributes\<close> at the root is neither
  backend metadata nor the deny-list file and is not copied, and \<open>agents/.git/config\<close>, the
  metadata of a nested repository, is copied. Of six files two reach the source.
\<close>

theorem pull_keeps_root_git_names_and_copies_nested_metadata:
  "pull example_mirror
   = (Inr \<lparr>files_synced = 2, committed = False, secrets_found = False, secret_details = [],
           message = FilesRestored 2\<rparr>,
      example_mirror
        \<lparr>claude_dir := [([''agents'', ''.git'', ''config''], ''[core]''),
                        ([''CLAUDE.md''], ''# Test'')],
         backup_dir := Some []\<rparr>)"
  by (rule example_mirror_pull)

text \<open>
  C4, amended. A \<open>pull\<close> that returns has first made the backup; it leaves the mirror as it
  was; it has copied every file of the (well-formed) mirror whose relative path does not
  print with the prefix \<open>.git\<close> and whose name is not \<open>.gitignore\<close>, whatever the tier and
  exclusion patterns say, and the source holds each at its relative path unless a directory
  of the source sat there; the count is the number of these files. Nothing is written under
  the \<open>.git\<close> directory of the source root, nor to a file named \<open>.gitignore\<close> at any depth.
\<close>

theorem pull_copies_all_but_git_prefixed_and_gitignore:
  assumes "wf_tree (sync_repo_dir s)" and "pull s = (Inr r, s')"
  shows "fst (create_backup s) = None \<and> backup_dir s' = backup_dir (snd (create_backup s))
       \<and> sync_repo_dir s' = sync_repo_dir s
       \<and> files_synced r = length (filter (\<lambda>src. \<not> pull_skips (fst src)) (sync_repo_dir s))
       \<and> (\<forall>p b. (p, b) \<in> set (sync_repo_dir s) \<and> \<not> pull_skips p \<and> \<not> is_dir (claude_dir s) p
              \<longrightarrow> map_of (claude_dir s') p = Some b)
       \<and> (\<forall>p. prefix [''.git''] p \<or> name p = ''.gitignore''
              \<longrightarrow> map_of (claude_dir s') p = map_of (claude_dir s) p)"
  using assms by (rule pull_effect)

theorem pull_copies_all_but_git_prefixed_and_gitignore_witness:
  "wf_tree (sync_repo_dir example_mirror)
   \<and> map_of (claude_dir (snd (pull example_mirror))) [''CLAUDE.md''] = Some ''# Test''
   \<and> map_of (claude_dir (snd (pull example_mirror))) [''.git'', ''HEAD''] = None
   \<and> map_of (claude_dir (snd (pull example_mirror))) [''agents'', ''.gitignore''] = None"
proof -
  let ?r = "\<lparr>files_synced = 2, committed = False, secrets_found = False, secret_details = [],
           message = FilesRestored 2\<rparr>"
  have p: "pull example_mirror = (Inr ?r, snd (pull example_mirror))"
    by (simp add: example_mirror_pull)
  from pull_copies_all_but_git_prefixed_and_gitignore [OF example_mirror_wf p]
  have copied: "\<forall>p b. (p, b) \<in> set (sync_repo_dir example_mirror) \<and> \<not> pull_skips p
                  \<and> \<not> is_dir (claude_dir example_mirror) p
              \<longrightarrow> map_of (claude_dir (snd (pull example_mirror))) p = Some b"
    and kept: "\<forall>p. prefix [''.git''] p \<or> name p = ''.gitignore''
              \<longrightarrow> map_of (claude_dir (snd (pull example_mirror))) p
                  = map_of (claude_dir example_mirror) p"
    by blast+
  have "([''CLAUDE.md''], ''# Test'') \<in> set (sync_repo_dir example_mirror)
        \<and> \<not> pull_skips [''CLAUDE.md''] \<and> \<not> is_dir (claude_dir example_mirror) [''CLAUDE.md'']"
    by (simp add: example_mirror_def pull_skips_def startswith_def name_def is_dir_def)
  with copied have a: "map_of (claude_dir (snd (pull example_mirror))) [''CLAUDE.md''] = Some ''# Test''"
    by blast
  have b: "map_of (claude_dir (snd (pull example_mirror))) [''.git'', ''HEAD''] = None"
    using kept [rule_format, of "[''.git'', ''HEAD'']"] by (simp add: example_mirror_def)
  have c: "map_of (claude_dir (snd (pull example_mirror))) [''agents'', ''.gitignore''] = None"
    using kept [rule_format, of "[''agents'', ''.gitignore'']"]
    by (simp add: example_mirror_def name_def)
  from a b c example_mirror_wf show ?thesis by simp
qed


subsection \<open>The backend\<close>














lemma push_frame:
  "claude_dir (snd (push P st msg s)) = claude_dir s
   \<and> max_tier (snd (push P st msg s)) = max_tier s"
  by (auto simp: push_def Let_def copy_to_sync_repo_def split: prod.splits sum.splits)




















subsection \<open>Push against an unchanged source\<close>





subsection \<open>Restoring\<close>










end
